theory Spec2Isabelle
  imports Complex_Main "HOL-Library.Multiset" "HOL-Library.Product_Lexorder"
    "HOL-Library.Log_Nat"
begin

section \<open>Python values and builtins used by the poker agent\<close>

text \<open>
  The agent (\<^verbatim>\<open>goat.py\<close>) is Python. Exceptions are values of \<open>py_error\<close>, and a function
  that can raise returns \<open>py_error + 'a\<close> with \<open>Inl\<close> for the exception. Python's unbounded
  integers are \<open>int\<close>. Strings are \<open>string\<close>; card and token text is read as ASCII.
  Python's floats are IEEE 754 binary64 numbers, with the rounding of every operation
  written out (section \<open>Python floats\<close>).
\<close>

datatype py_error = IndexError | ValueError | KeyError | OverflowError | ZeroDivisionError

definition bind_r :: "py_error + 'a \<Rightarrow> ('a \<Rightarrow> py_error + 'b) \<Rightarrow> py_error + 'b" where
  "bind_r m f = (case m of Inl e \<Rightarrow> Inl e | Inr x \<Rightarrow> f x)"

text \<open>\<^verbatim>\<open>xs[i]\<close> for a non-negative index: IndexError out of range.\<close>

definition idx :: "'a list \<Rightarrow> nat \<Rightarrow> py_error + 'a" where
  "idx xs i = (if i < length xs then Inr (xs ! i) else Inl IndexError)"

text \<open>
  \<^verbatim>\<open>collections.Counter(xs)\<close>: a dictionary from each element to its number of
  occurrences, iterated in the order of first occurrence.
\<close>

definition counter :: "'a list \<Rightarrow> ('a \<times> nat) list" where
  "counter xs = map (\<lambda>k. (k, count_list xs k)) (rev (remdups (rev xs)))"

text \<open>
  \<^verbatim>\<open>Counter(xs).most_common(n)\<close>: the \<open>n\<close> entries of highest count, ties in the
  order of first occurrence.
\<close>

definition most_common :: "nat \<Rightarrow> 'a list \<Rightarrow> ('a \<times> nat) list" where
  "most_common n xs = take n (sort_key (\<lambda>kc. - int (snd kc)) (counter xs))"

text \<open>\<^verbatim>\<open>sorted(xs, reverse=True)\<close> on integers: a stable descending sort.\<close>

definition sorted_desc :: "int list \<Rightarrow> int list" where
  "sorted_desc xs = sort_key (\<lambda>r. - r) xs"

text \<open>\<^verbatim>\<open>sorted(list(set(xs)))\<close>: the distinct elements in ascending order.\<close>

definition sorted_set :: "int list \<Rightarrow> int list" where
  "sorted_set xs = sort (remdups xs)"

text \<open>
  \<^verbatim>\<open>int(s)\<close> on a string, base ten: surrounding ASCII whitespace is dropped, one sign
  is allowed, and the digits may be separated by single underscores. Anything else raises
  ValueError.
\<close>

definition is_space :: "char \<Rightarrow> bool" where
  "is_space c = (c \<in> set [CHR '' '', CHR 0x09, CHR 0x0A, CHR 0x0B, CHR 0x0C, CHR 0x0D])"

definition is_digit :: "char \<Rightarrow> bool" where
  "is_digit c = (c \<in> set ''0123456789'')"

definition digit_val :: "char \<Rightarrow> nat" where
  "digit_val c = of_char c - 48"

fun digits_from :: "nat \<Rightarrow> string \<Rightarrow> nat option" where
  "digits_from acc [] = Some acc"
| "digits_from acc [c] = (if is_digit c then Some (10 * acc + digit_val c) else None)"
| "digits_from acc (c # d # cs) =
     (if is_digit c then digits_from (10 * acc + digit_val c) (d # cs)
      else if c = CHR ''_'' \<and> is_digit d then digits_from (10 * acc + digit_val d) cs
      else None)"

definition parse_digits :: "string \<Rightarrow> nat option" where
  "parse_digits s =
     (case s of [] \<Rightarrow> None
      | c # cs \<Rightarrow> if is_digit c then digits_from (digit_val c) cs else None)"

definition py_strip :: "string \<Rightarrow> string" where
  "py_strip s = rev (dropWhile is_space (rev (dropWhile is_space s)))"

definition py_int :: "string \<Rightarrow> py_error + int" where
  "py_int s =
     (let t = py_strip s;
          r = (case t of
                 [] \<Rightarrow> None
               | c # cs \<Rightarrow>
                   if c = CHR ''-'' then map_option (\<lambda>n. - int n) (parse_digits cs)
                   else if c = CHR ''+'' then map_option int (parse_digits cs)
                   else map_option int (parse_digits t))
      in case r of None \<Rightarrow> Inl ValueError | Some v \<Rightarrow> Inr v)"

text \<open>\<^verbatim>\<open>str(n)\<close> on an integer: its decimal digits, with a leading minus sign.\<close>

fun str_nat :: "nat \<Rightarrow> string" where
  "str_nat n =
     (if n < 10 then [char_of (48 + n)] else str_nat (n div 10) @ [char_of (48 + n mod 10)])"

declare str_nat.simps [simp del]

definition py_str :: "int \<Rightarrow> string" where
  "py_str i = (if i < 0 then CHR ''-'' # str_nat (nat (- i)) else str_nat (nat i))"

text \<open>\<^verbatim>\<open>itertools.combinations(xs, n)\<close>, in the order the iterator yields them.\<close>

fun combinations :: "nat \<Rightarrow> 'a list \<Rightarrow> 'a list list" where
  "combinations 0 xs = [[]]"
| "combinations (Suc n) [] = []"
| "combinations (Suc n) (x # xs) = map ((#) x) (combinations n xs) @ combinations (Suc n) xs"

section \<open>Python floats\<close>

text \<open>
  A Python float is an IEEE 754 binary64 number. A finite float is represented by the
  rational number it denotes; the two zeros are not told apart (the agent compares floats
  and truncates them, which does not distinguish the zeros). \<open>round_double\<close> rounds a
  rational to the nearest binary64 value, ties to the even significand: a significand of
  53 bits, so that the floats in \<open>[2^e, 2^(e+1)]\<close> are the multiples of \<open>2^(e-52)\<close>, and
  gradual underflow, so that the floats below \<open>2^(-1022)\<close> are the multiples of
  \<open>2^(-1074)\<close>. It puts no upper limit on the exponent: a rounded magnitude of \<open>2^1024\<close>
  or more is the overflow case.
\<close>

text \<open>For \<open>x > 0\<close>, the exponent \<open>e\<close> with \<open>2^e \<le> x < 2^(e+1)\<close>.\<close>

definition log2_floor :: "rat \<Rightarrow> int" where
  "log2_floor x =
     (case quotient_of x of (p, q) \<Rightarrow>
        let d = bitlen p - bitlen q in if 2 powi d \<le> x then d else d - 1)"

definition round_half_even :: "rat \<Rightarrow> int" where
  "round_half_even q =
     (let f = \<lfloor>q\<rfloor>; r = q - of_int f
      in if r < 1 / 2 then f else if r > 1 / 2 then f + 1 else if even f then f else f + 1)"

definition round_double :: "rat \<Rightarrow> rat" where
  "round_double x =
     (if x = 0 then 0
      else
        let e = max (log2_floor \<bar>x\<bar>) (- 1022);
            ulp = 2 powi (e - 52)
        in of_int (round_half_even (x / ulp)) * ulp)"

text \<open>
  The float that an operation with exact result \<open>x\<close> delivers, for the operations that
  raise OverflowError when the rounded result leaves the finite range.
\<close>

definition double_result :: "rat \<Rightarrow> py_error + rat" where
  "double_result x =
     (if \<bar>round_double x\<bar> \<ge> 2 ^ 1024 then Inl OverflowError else Inr (round_double x))"

text \<open>
  The conversion of an int operand of a float operation (\<^verbatim>\<open>float(n)\<close>): the nearest float,
  OverflowError when the int is too large for one.
\<close>

definition float_of_int :: "int \<Rightarrow> py_error + rat" where
  "float_of_int n = double_result (of_int n)"

text \<open>
  \<^verbatim>\<open>n * c\<close> and \<^verbatim>\<open>x + n\<close> for an int \<open>n\<close> and floats \<open>c\<close>, \<open>x\<close>: the int is converted,
  then the float operation rounds its exact result. A float product or sum beyond the finite
  range is an infinity in Python and no error yet; the agent passes every product and sum
  that can leave the range to \<^verbatim>\<open>int()\<close> with nothing in between, and \<^verbatim>\<open>int()\<close> raises
  OverflowError on an infinity, so the model raises that error where the infinity arises.
\<close>

definition int_times_float :: "int \<Rightarrow> rat \<Rightarrow> py_error + rat" where
  "int_times_float n c = bind_r (float_of_int n) (\<lambda>x. double_result (x * c))"

definition float_plus_int :: "rat \<Rightarrow> int \<Rightarrow> py_error + rat" where
  "float_plus_int x n = bind_r (float_of_int n) (\<lambda>y. double_result (x + y))"

text \<open>
  \<^verbatim>\<open>a / b\<close> on ints: the float nearest to the exact quotient; ZeroDivisionError for a zero
  divisor, OverflowError when the quotient is too large for a float.
\<close>

definition int_truediv :: "int \<Rightarrow> int \<Rightarrow> py_error + rat" where
  "int_truediv a b =
     (if b = 0 then Inl ZeroDivisionError else double_result (of_int a / of_int b))"

text \<open>\<^verbatim>\<open>int(x)\<close> on a finite float: truncation towards zero.\<close>

definition py_trunc :: "rat \<Rightarrow> int" where
  "py_trunc q = (if 0 \<le> q then \<lfloor>q\<rfloor> else \<lceil>q\<rceil>)"

section \<open>Enumerations and the card model\<close>

datatype HandRank =
  HIGH_CARD | PAIR | TWO_PAIR | THREE_OF_A_KIND | STRAIGHT | FLUSH | FULL_HOUSE
  | FOUR_OF_A_KIND | STRAIGHT_FLUSH

fun rank_value :: "HandRank \<Rightarrow> nat" where
  "rank_value HIGH_CARD = 0"
| "rank_value PAIR = 1"
| "rank_value TWO_PAIR = 2"
| "rank_value THREE_OF_A_KIND = 3"
| "rank_value STRAIGHT = 4"
| "rank_value FLUSH = 5"
| "rank_value FULL_HOUSE = 6"
| "rank_value FOUR_OF_A_KIND = 7"
| "rank_value STRAIGHT_FLUSH = 8"

datatype HandCategory =
  MONSTER | STRONG_MADE | MEDIUM_MADE | WEAK_MADE | STRONG_DRAW | WEAK_DRAW | AIR

fun category_value :: "HandCategory \<Rightarrow> rat" where
  "category_value MONSTER = 5"
| "category_value STRONG_MADE = 4"
| "category_value MEDIUM_MADE = 3"
| "category_value WEAK_MADE = 2"
| "category_value STRONG_DRAW = 1"
| "category_value WEAK_DRAW = 1 / 2"
| "category_value AIR = 0"

record card =
  rank :: int
  suit :: string

definition rank_map :: "string \<Rightarrow> int option" where
  "rank_map = map_of [(''T'', 10), (''J'', 11), (''Q'', 12), (''K'', 13), (''A'', 14)]"

text \<open>
  \<^verbatim>\<open>Card.__init__\<close>. The suit is stored before the rank is parsed, and the handler
  catches ValueError only.
\<close>

definition Card :: "string \<Rightarrow> py_error + card" where
  "Card card_str =
     (if card_str = [] then Inr \<lparr>rank = 0, suit = []\<rparr>
      else
        let rank_str = butlast card_str; s = [last card_str] in
        case rank_map rank_str of
          Some v \<Rightarrow> Inr \<lparr>rank = v, suit = s\<rparr>
        | None \<Rightarrow>
            (case py_int rank_str of
               Inr v \<Rightarrow> Inr \<lparr>rank = v, suit = s\<rparr>
             | Inl e \<Rightarrow> if e = ValueError then Inr \<lparr>rank = 0, suit = s\<rparr> else Inl e))"

section \<open>The hand evaluator\<close>

text \<open>\<^verbatim>\<open>HandEvaluator._evaluate_preliminary\<close>.\<close>

definition evaluate_preliminary :: "card list \<Rightarrow> HandRank \<times> int list" where
  "evaluate_preliminary cards =
     (let ranks = map rank cards;
          vals = map snd (counter ranks)
      in if 4 \<in> set vals then (FOUR_OF_A_KIND, sorted_desc ranks)
         else if 3 \<in> set vals then (THREE_OF_A_KIND, sorted_desc ranks)
         else if count_list vals 2 \<ge> 1 then (PAIR, sorted_desc ranks)
         else (HIGH_CARD, sorted_desc ranks))"

text \<open>
  \<^verbatim>\<open>HandEvaluator._evaluate_five_card_hand\<close>. \<^verbatim>\<open>counts[0]\<close> raises IndexError on
  an empty hand.
\<close>

definition straight_window :: "int list \<Rightarrow> bool" where
  "straight_window u = list_ex (\<lambda>i. u ! i - u ! (i + 4) = - 4) [0..<length u - 4]"

definition evaluate_five_card_hand :: "card list \<Rightarrow> py_error + (HandRank \<times> int list)" where
  "evaluate_five_card_hand hand =
     (let ranks0 = sorted_desc (map rank hand);
          suits = map suit hand;
          rank_counts = counter ranks0;
          is_flush = (card (set suits) = 1);
          unique_ranks = sorted_set ranks0;
          wheel = (set ranks0 = {14, 2, 3, 4, 5});
          is_straight = (wheel \<or> (length unique_ranks \<ge> 5 \<and> straight_window unique_ranks));
          ranks = (if wheel then [5, 4, 3, 2, 1] else ranks0)
      in if is_straight \<and> is_flush then Inr (STRAIGHT_FLUSH, ranks)
         else
           let counts = sort_key (\<lambda>c. - int c) (map snd rank_counts);
               main_ranks =
                 sort_key (\<lambda>r. (- int (count_list ranks0 r), - r)) (map fst rank_counts)
           in case counts of
                [] \<Rightarrow> Inl IndexError
              | c0 # _ \<Rightarrow>
                  if c0 = 4 then Inr (FOUR_OF_A_KIND, main_ranks)
                  else if counts = [3, 2] then Inr (FULL_HOUSE, main_ranks)
                  else if is_flush then Inr (FLUSH, ranks)
                  else if is_straight then Inr (STRAIGHT, ranks)
                  else if c0 = 3 then Inr (THREE_OF_A_KIND, main_ranks)
                  else if counts = [2, 2, 1] then Inr (TWO_PAIR, main_ranks)
                  else if c0 = 2 then Inr (PAIR, main_ranks)
                  else Inr (HIGH_CARD, ranks))"

text \<open>
  The kicker loop of \<^verbatim>\<open>HandEvaluator.evaluate\<close>: it walks the indices of the new
  kickers, reads the same index of the best kickers (IndexError when that list is shorter),
  and answers whether the best kickers are replaced.
\<close>

fun kickers_loop :: "int list \<Rightarrow> int list \<Rightarrow> py_error + bool" where
  "kickers_loop [] bs = Inr False"
| "kickers_loop (k # ks) [] = Inl IndexError"
| "kickers_loop (k # ks) (b # bs) =
     (if k > b then Inr True else if k < b then Inr False else kickers_loop ks bs)"

definition eval_step ::
  "HandRank \<times> int list \<Rightarrow> card list \<Rightarrow> py_error + (HandRank \<times> int list)" where
  "eval_step best combo =
     (case best of (best_rank, best_kickers) \<Rightarrow>
        bind_r (evaluate_five_card_hand combo) (\<lambda>(rnk, kickers).
          if rank_value rnk > rank_value best_rank then Inr (rnk, kickers)
          else if rank_value rnk = rank_value best_rank then
            bind_r (kickers_loop kickers best_kickers) (\<lambda>b.
              Inr (best_rank, if b then kickers else best_kickers))
          else Inr (best_rank, best_kickers)))"

fun eval_loop ::
  "HandRank \<times> int list \<Rightarrow> card list list \<Rightarrow> py_error + (HandRank \<times> int list)" where
  "eval_loop best [] = Inr best"
| "eval_loop best (combo # combos) = bind_r (eval_step best combo) (\<lambda>b. eval_loop b combos)"

text \<open>\<^verbatim>\<open>HandEvaluator.evaluate\<close>.\<close>

definition evaluate :: "card list \<Rightarrow> card list \<Rightarrow> py_error + (HandRank \<times> int list)" where
  "evaluate hand community =
     (let all_cards = sort_key (\<lambda>c. - rank c) (hand @ community)
      in if length all_cards < 5 then Inr (evaluate_preliminary all_cards)
         else eval_loop (HIGH_CARD, take 5 (map rank all_cards)) (combinations 5 all_cards))"

section \<open>The categorizer and the equity estimator\<close>

text \<open>
  The 4-rank windows over the ascending unique ranks, as the two functions walk them:
  \<^verbatim>\<open>unique_ranks[i+3] - unique_ranks[i]\<close> for \<^verbatim>\<open>i in range(len(unique_ranks)-3)\<close>.
\<close>

definition window_spans :: "int list \<Rightarrow> int list" where
  "window_spans u = map (\<lambda>i. u ! (i + 3) - u ! i) [0..<length u - 3]"

text \<open>\<^verbatim>\<open>Counter(suits).most_common(1)[0][1]\<close>: IndexError when there is no card.\<close>

definition top_suit_count :: "card list \<Rightarrow> py_error + nat" where
  "top_suit_count cards = bind_r (idx (most_common 1 (map suit cards)) 0) (\<lambda>kc. Inr (snd kc))"

text \<open>\<^verbatim>\<open>max(xs, default=d)\<close>.\<close>

definition max_default :: "int list \<Rightarrow> int \<Rightarrow> int" where
  "max_default xs d = (case xs of [] \<Rightarrow> d | y # ys \<Rightarrow> fold max ys y)"

text \<open>The draw heuristic of \<^verbatim>\<open>_categorize_hand\<close> (the body of its \<^verbatim>\<open>len(combined) < 5\<close> block).\<close>

definition draw_detected :: "card list \<Rightarrow> py_error + bool" where
  "draw_detected combined =
     bind_r (top_suit_count combined) (\<lambda>n.
       if n = 4 then Inr True
       else
         let unique_ranks = sorted_set (map rank combined)
         in Inr (length unique_ranks \<ge> 4 \<and> list_ex (\<lambda>d. d \<le> 4) (window_spans unique_ranks)))"

text \<open>The pair refinement of \<^verbatim>\<open>_categorize_hand\<close> (the body of its \<^verbatim>\<open>rank == PAIR\<close> block).\<close>

definition pair_category :: "card list \<Rightarrow> card list \<Rightarrow> py_error + HandCategory" where
  "pair_category hole community =
     bind_r (idx (map fst (filter (\<lambda>rc. snd rc = 2) (counter (map rank (hole @ community))))) 0)
       (\<lambda>pair_rank.
     bind_r (idx hole 0) (\<lambda>h0.
     bind_r (idx hole 1) (\<lambda>h1.
       if pair_rank \<in> set [rank h0, rank h1] \<and> pair_rank \<ge> max_default (map rank community) 0
       then Inr STRONG_MADE
       else if pair_rank \<in> set [rank h0, rank h1] then Inr MEDIUM_MADE
       else Inr WEAK_MADE)))"

text \<open>\<^verbatim>\<open>GTOPlayer._categorize_hand\<close>.\<close>

definition categorize_hand ::
  "HandRank \<Rightarrow> card list \<Rightarrow> card list \<Rightarrow> py_error + HandCategory" where
  "categorize_hand rnk hole community =
     (if rank_value rnk \<ge> rank_value FULL_HOUSE then Inr MONSTER
      else
        bind_r (if rnk = THREE_OF_A_KIND
                then bind_r (idx hole 0) (\<lambda>h0. bind_r (idx hole 1) (\<lambda>h1. Inr (rank h0 = rank h1)))
                else Inr False) (\<lambda>pocket_set.
        if pocket_set then Inr MONSTER
        else if rank_value rnk \<ge> rank_value TWO_PAIR then Inr STRONG_MADE
        else
          let combined = hole @ community in
          bind_r (if length combined < 5 then draw_detected combined else Inr False) (\<lambda>draw.
          if draw then Inr STRONG_DRAW
          else if rnk = PAIR then pair_category hole community
          else Inr AIR)))"

text \<open>
  \<^verbatim>\<open>GTOPlayer._estimate_draw_equity\<close>, on the agent's hand and the community cards. The
  result is the float \<^verbatim>\<open>(outs * multiplier) / 100\<close>.
\<close>

definition draw_outs :: "nat \<Rightarrow> int list \<Rightarrow> int" where
  "draw_outs top_count unique_ranks =
     (let outs = (if top_count = 4 then 9 else 0)
      in if length unique_ranks \<ge> 4 then
           (if list_ex (\<lambda>d. d = 3) (window_spans unique_ranks) then max outs 8
            else if list_ex (\<lambda>d. d = 4) (window_spans unique_ranks) then max outs 4
            else outs)
         else outs)"

definition estimate_draw_equity :: "card list \<Rightarrow> card list \<Rightarrow> py_error + rat" where
  "estimate_draw_equity hole community_cards =
     (let combined = hole @ community_cards in
      bind_r (top_suit_count combined) (\<lambda>top_count.
        let outs = draw_outs top_count (sorted_set (map rank combined));
            multiplier = (if length community_cards = 3 then 4 else 2)
        in int_truediv (outs * multiplier) 100))"

section \<open>Session state, round state and position\<close>

record player =
  hand :: "card list"
  is_preflop_aggressor :: bool
  all_player_ids :: "int list"
  player_id :: "int option"

text \<open>
  Modelled from the spec: the round-state snapshot \<^verbatim>\<open>RoundStateClient\<close> and the action type
  \<^verbatim>\<open>PokerAction\<close> are imported by the agent and are not among its source files. The
  record holds the fields the agent reads (spec section 6); chip quantities are integers,
  the two per-player mappings are keyed by the player id as text.
\<close>

record round_state =
  round_name :: string
  current_bet :: int
  player_bets :: "string \<rightharpoonup> int"
  pot :: int
  min_raise :: int
  max_raise :: int
  community_cards :: "string list"
  player_actions :: "(string \<times> string) list"
  big_blind_player_id :: int

datatype PokerAction = FOLD | CHECK | CALL | RAISE

text \<open>The four position names, the keys of the range table.\<close>

datatype Position = EARLY | MIDDLE | LATE | BLINDS

text \<open>\<^verbatim>\<open>xs.index(x)\<close>: the first index of \<open>x\<close>, ValueError when it is absent.\<close>

fun index_of :: "'a list \<Rightarrow> 'a \<Rightarrow> py_error + nat" where
  "index_of [] y = Inl ValueError"
| "index_of (x # xs) y = (if x = y then Inr 0 else bind_r (index_of xs y) (\<lambda>i. Inr (Suc i)))"

text \<open>
  \<^verbatim>\<open>GTOPlayer._get_position\<close>. The agent's id is \<^verbatim>\<open>None\<close> until the host sets it, and
  \<^verbatim>\<open>None\<close> is in no list of player ids. The handler turns ValueError into the fallback.
\<close>

definition relative_pos :: "player \<Rightarrow> round_state \<Rightarrow> py_error + int" where
  "relative_pos p rs =
     (let player_count = int (length (all_player_ids p)) in
      bind_r (case player_id p of None \<Rightarrow> Inl ValueError
              | Some i \<Rightarrow> index_of (all_player_ids p) i) (\<lambda>my_index.
      bind_r (index_of (all_player_ids p) (big_blind_player_id rs)) (\<lambda>bb_index.
        Inr ((int my_index - int bb_index + player_count) mod player_count))))"

definition get_position :: "player \<Rightarrow> round_state \<Rightarrow> py_error + Position" where
  "get_position p rs =
     (let player_count = int (length (all_player_ids p)) in
      if player_count \<le> 3 then Inr LATE
      else
        case relative_pos p rs of
          Inl e \<Rightarrow> if e = ValueError then Inr LATE else Inl e
        | Inr rel \<Rightarrow>
            if rel \<in> set [player_count - 1, player_count - 2] then Inr BLINDS
            else if rel = player_count - 3 then Inr LATE
            else if rel = player_count - 4 then Inr LATE
            else if rel = player_count - 5 then Inr MIDDLE
            else Inr EARLY)"

section \<open>The pre-flop range matcher\<close>

record range_table =
  RFI :: "string list"
  three_bet :: "string list"
  call :: "string list"

text \<open>\<^verbatim>\<open>GTOPlayer.preflop_ranges\<close>, the table built in \<^verbatim>\<open>__init__\<close>.\<close>

fun preflop_ranges :: "Position \<Rightarrow> range_table" where
  "preflop_ranges EARLY =
     \<lparr>RFI = [''77+'', ''ATs+'', ''KJs+'', ''QJs'', ''JTs'', ''T9s'', ''AJo+'', ''KQo''],
      three_bet = [''TT+'', ''AQs+'', ''AKo''],
      call = [''22-99'', ''AJs'', ''ATs'', ''KQs'']\<rparr>"
| "preflop_ranges MIDDLE =
     \<lparr>RFI = [''55+'', ''A8s+'', ''K9s+'', ''QTs+'', ''JTs'', ''T9s'', ''A9o+'', ''KTo+'', ''QJo''],
      three_bet = [''99+'', ''ATs+'', ''KJs+'', ''AQo+''],
      call = [''22-88'', ''A9s'', ''KTs'', ''QTs'']\<rparr>"
| "preflop_ranges LATE =
     \<lparr>RFI = [''22+'', ''A2s+'', ''K7s+'', ''Q8s+'', ''J8s+'', ''T8s+'', ''A2o+'', ''K9o+'',
             ''QTo+'', ''JTo''],
      three_bet = [''88+'', ''A8s+'', ''K9s+'', ''AQo+'', ''KQo''],
      call = [''22-77'', ''A2s-A7s'', ''JTs'', ''QTs'']\<rparr>"
| "preflop_ranges BLINDS =
     \<lparr>RFI = [''33+'', ''A2s+'', ''K8s+'', ''Q9s+'', ''J9s+'', ''A7o+'', ''KTo+''],
      three_bet = [''99+'', ''AJs+'', ''AQo+''],
      call = [''22-88'', ''A2s-ATs'', ''KJs+'', ''QTs+'']\<rparr>"

text \<open>\<^verbatim>\<open>s.startswith(t)\<close> and \<^verbatim>\<open>s.endswith(t)\<close>.\<close>

definition startswith :: "string \<Rightarrow> string \<Rightarrow> bool" where
  "startswith s t = (take (length t) s = t)"

definition endswith :: "string \<Rightarrow> string \<Rightarrow> bool" where
  "endswith s t = (length t \<le> length s \<and> drop (length s - length t) s = t)"

text \<open>\<^verbatim>\<open>rank_map_rev.get(rank, str(rank))\<close>.\<close>

definition rank_text :: "int \<Rightarrow> string" where
  "rank_text r =
     (case map_of [(10, ''T''), (11, ''J''), (12, ''Q''), (13, ''K''), (14, ''A'')] r of
        Some t \<Rightarrow> t
      | None \<Rightarrow> py_str r)"

text \<open>
  \<^verbatim>\<open>GTOPlayer._get_hand_string\<close>. Unpacking the sorted hand into two names raises
  ValueError unless it has exactly two cards.
\<close>

definition get_hand_string :: "card list \<Rightarrow> py_error + string" where
  "get_hand_string hole =
     (case sort_key (\<lambda>c. - rank c) hole of
        [c1, c2] \<Rightarrow>
          let s = (if suit c1 = suit c2 then ''s'' else ''o'');
              r1 = rank_text (rank c1);
              r2 = rank_text (rank c2)
          in Inr (if r1 = r2 then r1 @ r2 else r1 @ r2 @ s)
      | _ \<Rightarrow> Inl ValueError)"

text \<open>
  One turn of the loop of \<^verbatim>\<open>GTOPlayer._is_in_range\<close>: whether token \<open>r\<close> makes the
  function return True. \<open>c1\<close>, \<open>c2\<close> are the hand's cards in stored order.
\<close>

definition token_matches :: "string \<Rightarrow> card \<Rightarrow> card \<Rightarrow> string \<Rightarrow> py_error + bool" where
  "token_matches hand_str c1 c2 r =
     (if length r = 2 then Inr (startswith hand_str r)
      else if endswith r ''+'' then
        bind_r (idx r 1) (\<lambda>base_rank_str.
        bind_r (Card (base_rank_str # ''s'')) (\<lambda>base_card.
        let base_rank = rank base_card in
        bind_r (idx r 0) (\<lambda>r0.
          if length r = 3 \<and> r0 = base_rank_str then
            Inr (rank c1 = rank c2 \<and> rank c1 \<ge> base_rank)
          else if endswith r ''s+'' \<and> endswith hand_str ''s'' then
            bind_r (idx hand_str 0) (\<lambda>h0. Inr (h0 = r0 \<and> rank c2 \<ge> base_rank))
          else if endswith r ''o+'' \<and> endswith hand_str ''o'' then
            bind_r (idx hand_str 0) (\<lambda>h0. Inr (h0 = r0 \<and> rank c2 \<ge> base_rank))
          else Inr False)))
      else Inr (r = hand_str))"

fun range_loop :: "string \<Rightarrow> card \<Rightarrow> card \<Rightarrow> string list \<Rightarrow> py_error + bool" where
  "range_loop hand_str c1 c2 [] = Inr False"
| "range_loop hand_str c1 c2 (r # rs) =
     bind_r (token_matches hand_str c1 c2 r) (\<lambda>b.
       if b then Inr True else range_loop hand_str c1 c2 rs)"

definition is_in_range :: "card list \<Rightarrow> string list \<Rightarrow> py_error + bool" where
  "is_in_range hole range_list =
     bind_r (get_hand_string hole) (\<lambda>hand_str.
       case hole of
         [c1, c2] \<Rightarrow> range_loop hand_str c1 c2 range_list
       | _ \<Rightarrow> Inl ValueError)"

section \<open>The decision policy\<close>

text \<open>\<^verbatim>\<open>GTOPlayer._make_bet\<close> and \<^verbatim>\<open>GTOPlayer._make_raise\<close>; the amount is already truncated.\<close>

definition make_bet :: "round_state \<Rightarrow> int \<Rightarrow> PokerAction \<times> int" where
  "make_bet rs amount = (RAISE, max (min_raise rs) (min amount (max_raise rs)))"

definition make_raise :: "round_state \<Rightarrow> int \<Rightarrow> PokerAction \<times> int" where
  "make_raise rs amount = (RAISE, max (min_raise rs) (min amount (max_raise rs)))"

text \<open>\<^verbatim>\<open>str(self.id)\<close>.\<close>

definition id_text :: "int option \<Rightarrow> string" where
  "id_text i = (case i of None \<Rightarrow> ''None'' | Some n \<Rightarrow> py_str n)"

definition amount_to_call :: "player \<Rightarrow> round_state \<Rightarrow> int" where
  "amount_to_call p rs =
     current_bet rs - (case player_bets rs (id_text (player_id p)) of None \<Rightarrow> 0 | Some b \<Rightarrow> b)"

text \<open>
  \<^verbatim>\<open>GTOPlayer._get_preflop_action\<close>. The result carries the agent with its aggressor flag
  as the call leaves it; an exception carries no agent state. The raise-first-in target is
  the float \<^verbatim>\<open>min_raise * 2.5\<close>, truncated by \<^verbatim>\<open>_make_raise\<close>; 2.5 is a binary fraction.
\<close>

definition get_preflop_action ::
  "player \<Rightarrow> round_state \<Rightarrow> int \<Rightarrow> py_error + ((PokerAction \<times> int) \<times> player)" where
  "get_preflop_action p rs to_call =
     bind_r (get_position p rs) (\<lambda>position.
       let ranges = preflop_ranges position;
           has_raise = list_ex (\<lambda>a. a = ''Raise'') (map snd (player_actions rs))
       in if has_raise then
            bind_r (is_in_range (hand p) (three_bet ranges)) (\<lambda>b3.
              if b3 then
                Inr (make_raise rs (current_bet rs * 3), p\<lparr>is_preflop_aggressor := True\<rparr>)
              else
                bind_r (is_in_range (hand p) (call ranges)) (\<lambda>bc.
                  if bc then Inr ((CALL, to_call), p) else Inr ((FOLD, 0), p)))
          else
            bind_r (is_in_range (hand p) (RFI ranges)) (\<lambda>b.
              if b then
                bind_r (int_times_float (min_raise rs) (5 / 2)) (\<lambda>amount.
                  Inr (make_raise rs (py_trunc amount), p\<lparr>is_preflop_aggressor := True\<rparr>))
              else if to_call = 0 then Inr ((CHECK, 0), p)
              else Inr ((FOLD, 0), p)))"

text \<open>\<^verbatim>\<open>GTOPlayer.community_cards\<close>.\<close>

fun parse_cards :: "string list \<Rightarrow> py_error + card list" where
  "parse_cards [] = Inr []"
| "parse_cards (s # ss) =
     bind_r (Card s) (\<lambda>c. bind_r (parse_cards ss) (\<lambda>cs. Inr (c # cs)))"

text \<open>
  The two post-flop branches of \<^verbatim>\<open>GTOPlayer.get_action\<close>. \<open>rnd\<close> is the float that
  \<^verbatim>\<open>random.random()\<close> returns when the bluff branch draws one. The literals 0.66 and 0.4
  denote the floats nearest to 66/100 and 4/10; 0.5 and 1.5 are binary fractions.
\<close>

definition bet_fraction :: "round_state \<Rightarrow> rat \<Rightarrow> py_error + (PokerAction \<times> int)" where
  "bet_fraction rs c =
     bind_r (int_times_float (pot rs) c) (\<lambda>amount. Inr (make_bet rs (py_trunc amount)))"

definition check_or_bet ::
  "player \<Rightarrow> round_state \<Rightarrow> HandCategory \<Rightarrow> rat \<Rightarrow> py_error + (PokerAction \<times> int)" where
  "check_or_bet p rs hand_category rnd =
     (if is_preflop_aggressor p then
        (if category_value hand_category \<ge> category_value STRONG_MADE
            \<or> category_value hand_category = category_value STRONG_DRAW
         then bet_fraction rs (round_double (66 / 100))
         else if category_value hand_category = category_value AIR
                 \<and> rnd < round_double (4 / 10)
         then bet_fraction rs (round_double (4 / 10))
         else Inr (CHECK, 0))
      else
        (if category_value hand_category \<ge> category_value MEDIUM_MADE
         then bet_fraction rs (1 / 2)
         else Inr (CHECK, 0)))"

text \<open>
  \<^verbatim>\<open>amount_to_call / (pot_size + amount_to_call) if (pot_size + amount_to_call) > 0 else 0\<close>,
  which \<^verbatim>\<open>get_action\<close> computes before it looks at the category.
\<close>

definition pot_odds :: "int \<Rightarrow> int \<Rightarrow> py_error + rat" where
  "pot_odds to_call pot_size =
     (if pot_size + to_call > 0 then int_truediv to_call (pot_size + to_call) else Inr 0)"

definition facing_bet ::
  "player \<Rightarrow> round_state \<Rightarrow> HandCategory \<Rightarrow> card list \<Rightarrow> int
     \<Rightarrow> py_error + (PokerAction \<times> int)" where
  "facing_bet p rs hand_category community to_call =
     (let pot_size = pot rs in
      bind_r (pot_odds to_call pot_size) (\<lambda>odds.
        if category_value hand_category = category_value MONSTER then
          bind_r (int_times_float pot_size (3 / 2)) (\<lambda>x.
          bind_r (float_plus_int x to_call) (\<lambda>amount.
            Inr (make_raise rs (py_trunc amount))))
        else if category_value hand_category \<ge> category_value STRONG_MADE then
          Inr (CALL, to_call)
        else
          bind_r (if category_value hand_category = category_value STRONG_DRAW
                  then bind_r (estimate_draw_equity (hand p) community) (\<lambda>equity.
                         Inr (equity > odds))
                  else Inr False) (\<lambda>draw_call.
            if draw_call then Inr (CALL, to_call)
            else if category_value hand_category \<ge> category_value WEAK_MADE then
              bind_r (int_times_float pot_size (1 / 2)) (\<lambda>half_pot.
                if of_int to_call \<le> half_pot then Inr (CALL, to_call) else Inr (FOLD, 0))
            else Inr (FOLD, 0))))"

text \<open>\<^verbatim>\<open>GTOPlayer.get_action\<close>.\<close>

definition get_action ::
  "player \<Rightarrow> round_state \<Rightarrow> rat \<Rightarrow> py_error + ((PokerAction \<times> int) \<times> player)" where
  "get_action p rs rnd =
     (let to_call = amount_to_call p rs in
      if round_name rs = ''Preflop'' then get_preflop_action p rs to_call
      else
        bind_r (parse_cards (community_cards rs)) (\<lambda>community.
        bind_r (evaluate (hand p) community) (\<lambda>(hand_rank, kickers).
        bind_r (categorize_hand hand_rank (hand p) community) (\<lambda>hand_category.
          if to_call = 0 then bind_r (check_or_bet p rs hand_category rnd) (\<lambda>a. Inr (a, p))
          else bind_r (facing_bet p rs hand_category community to_call) (\<lambda>a. Inr (a, p))))))"

section \<open>Example states\<close>

text \<open>Pocket aces on an ace-king-deuce flop, facing a bet of 10 into a pot of 100.\<close>

definition pocket_aces :: player where
  "pocket_aces =
     \<lparr>hand = [\<lparr>rank = 14, suit = ''h''\<rparr>, \<lparr>rank = 14, suit = ''d''\<rparr>],
      is_preflop_aggressor = False, all_player_ids = [1, 2, 3, 4, 5, 6], player_id = Some 4\<rparr>"

definition flop_facing_bet :: round_state where
  "flop_facing_bet =
     \<lparr>round_name = ''Flop'', current_bet = 10, player_bets = Map.empty, pot = 100,
      min_raise = 20, max_raise = 120, community_cards = [''Ac'', ''Kd'', ''2s''],
      player_actions = [], big_blind_player_id = 1\<rparr>"


definition seven_six_hearts :: player where
  "seven_six_hearts =
     \<lparr>hand = [\<lparr>rank = 7, suit = ''h''\<rparr>, \<lparr>rank = 6, suit = ''h''\<rparr>],
      is_preflop_aggressor = False, all_player_ids = [1, 2, 3, 4, 5, 6], player_id = Some 4\<rparr>"





section \<open>The outs rule as the specification words it\<close>

text \<open>
  The draw-equity rule in the words of claim C7, to be compared with
  \<open>estimate_draw_equity\<close>: four cards of one suit exist among the cards when some suit is
  held by at least four of them; a 4-rank window is four neighbours in the ascending list
  of unique ranks, and its span is its largest rank minus its smallest.
\<close>

definition four_of_one_suit :: "card list \<Rightarrow> bool" where
  "four_of_one_suit cards = (\<exists>s \<in> set (map suit cards). count_list (map suit cards) s \<ge> 4)"

definition rank_windows :: "int list \<Rightarrow> int list list" where
  "rank_windows u = map (\<lambda>i. take 4 (drop i u)) [0..<length u - 3]"

definition rank_span :: "int list \<Rightarrow> int" where
  "rank_span w = Max (set w) - Min (set w)"

definition rule_outs :: "bool \<Rightarrow> card list \<Rightarrow> int" where
  "rule_outs flush_outs cards =
     (let outs = (if flush_outs then 9 else 0);
          spans = map rank_span (rank_windows (sorted_list_of_set (set (map rank cards))))
      in if 3 \<in> set spans then max outs 8
         else if 4 \<in> set spans then max outs 4
         else outs)"

definition spec_outs :: "card list \<Rightarrow> int" where
  "spec_outs cards = rule_outs (four_of_one_suit cards) cards"

text \<open>
  The rule with the flush outs as the code counts them: nine outs for a four-flush, where
  some suit is held by exactly four of the cards and no suit by more.
\<close>

definition four_flush :: "card list \<Rightarrow> bool" where
  "four_flush cards =
     ((\<exists>s \<in> set (map suit cards). count_list (map suit cards) s = 4)
      \<and> (\<forall>s \<in> set (map suit cards). count_list (map suit cards) s \<le> 4))"

definition four_flush_outs :: "card list \<Rightarrow> int" where
  "four_flush_outs cards = rule_outs (four_flush cards) cards"

section \<open>The tokens of the range table\<close>

definition has_dash :: "string \<Rightarrow> bool" where
  "has_dash r = (CHR ''-'' \<in> set r)"

definition table_tokens :: "string list" where
  "table_tokens =
     concat (map (\<lambda>pos. RFI (preflop_ranges pos) @ three_bet (preflop_ranges pos)
                          @ call (preflop_ranges pos))
               [EARLY, MIDDLE, LATE, BLINDS])"

section \<open>Basic facts about the Python builtins\<close>

lemma bind_r_Inr [simp]: "bind_r (Inr x) f = f x"
  by (simp add: bind_r_def)

lemma bind_r_Inl [simp]: "bind_r (Inl e) f = Inl e"
  by (simp add: bind_r_def)

lemma bind_r_eq_Inr: "bind_r m f = Inr y \<longleftrightarrow> (\<exists>x. m = Inr x \<and> f x = Inr y)"
  by (cases m) simp_all

section \<open>Facts about float rounding\<close>

lemma log2_floor_bounds:
  assumes "0 < x"
  shows "2 powi (log2_floor x) \<le> x \<and> x < 2 powi (log2_floor x + 1)"
proof -
  obtain p q where pq: "quotient_of x = (p, q)" by (cases "quotient_of x")
  then have q: "0 < q" by (rule quotient_of_denom_pos)
  from pq have x: "x = of_int p / of_int q" by (rule quotient_of_div)
  with assms q have p: "0 < p" by (simp add: zero_less_divide_iff)
  let ?d = "bitlen p - bitlen q"
  from bitlen_bounds [OF p] have p1: "2 ^ nat (bitlen p - 1) \<le> p" and p2: "p < 2 ^ nat (bitlen p)"
    by simp_all
  from bitlen_bounds [OF q] have q1: "2 ^ nat (bitlen q - 1) \<le> q" and q2: "q < 2 ^ nat (bitlen q)"
    by simp_all
  from p have bp: "1 \<le> bitlen p" by (simp add: bitlen_alt_def)
  from q have bq: "1 \<le> bitlen q" by (simp add: bitlen_alt_def)
  have P1: "(2::rat) powi (bitlen p - 1) \<le> of_int p"
  proof -
    have "(of_int (2 ^ nat (bitlen p - 1)) :: rat) \<le> of_int p"
      using p1 by (simp only: of_int_le_iff)
    then show ?thesis using bp by (simp add: power_int_nonneg_exp)
  qed
  have P2: "of_int p < (2::rat) powi (bitlen p)"
  proof -
    have "(of_int p :: rat) < of_int (2 ^ nat (bitlen p))"
      using p2 by (simp only: of_int_less_iff)
    then show ?thesis using bp by (simp add: power_int_nonneg_exp)
  qed
  have Q1: "(2::rat) powi (bitlen q - 1) \<le> of_int q"
  proof -
    have "(of_int (2 ^ nat (bitlen q - 1)) :: rat) \<le> of_int q"
      using q1 by (simp only: of_int_le_iff)
    then show ?thesis using bq by (simp add: power_int_nonneg_exp)
  qed
  have Q2: "of_int q < (2::rat) powi (bitlen q)"
  proof -
    have "(of_int q :: rat) < of_int (2 ^ nat (bitlen q))"
      using q2 by (simp only: of_int_less_iff)
    then show ?thesis using bq by (simp add: power_int_nonneg_exp)
  qed
  have qpos: "(0::rat) < of_int q" using q by simp
  have upper: "x < 2 powi (?d + 1)"
  proof -
    have "of_int p * (2::rat) powi (bitlen q - 1) < 2 powi (bitlen p) * of_int q"
    proof -
      have "of_int p * (2::rat) powi (bitlen q - 1) < 2 powi (bitlen p) * 2 powi (bitlen q - 1)"
        using P2 by simp
      also have "\<dots> \<le> 2 powi (bitlen p) * of_int q"
        using Q1 by simp
      finally show ?thesis .
    qed
    then have "of_int p / of_int q < (2::rat) powi (bitlen p) / 2 powi (bitlen q - 1)"
      using qpos by (simp add: field_simps)
    also have "\<dots> = 2 powi (bitlen p - (bitlen q - 1))"
      by (rule power_int_diff [symmetric]) simp
    also have "bitlen p - (bitlen q - 1) = ?d + 1" by simp
    finally show ?thesis by (simp add: x)
  qed
  have lower: "2 powi (?d - 1) \<le> x"
  proof -
    have "(2::rat) powi (bitlen p - 1) * of_int q \<le> of_int p * 2 powi (bitlen q)"
    proof -
      have "(2::rat) powi (bitlen p - 1) * of_int q \<le> 2 powi (bitlen p - 1) * 2 powi (bitlen q)"
        using Q2 by simp
      also have "\<dots> \<le> of_int p * 2 powi (bitlen q)"
        using P1 by simp
      finally show ?thesis .
    qed
    then have "(2::rat) powi (bitlen p - 1) / 2 powi (bitlen q) \<le> of_int p / of_int q"
      using qpos by (simp add: field_simps)
    moreover have "(2::rat) powi (bitlen p - 1) / 2 powi (bitlen q)
        = 2 powi (bitlen p - 1 - bitlen q)"
      by (rule power_int_diff [symmetric]) simp
    moreover have "bitlen p - 1 - bitlen q = ?d - 1" by simp
    ultimately show ?thesis by (simp add: x)
  qed
  show ?thesis
  proof (cases "2 powi ?d \<le> x")
    case True
    then have "log2_floor x = ?d" by (simp add: log2_floor_def pq)
    with True upper show ?thesis by simp
  next
    case False
    then have "log2_floor x = ?d - 1" by (simp add: log2_floor_def pq)
    with False lower show ?thesis by simp
  qed
qed

lemma round_half_even_le:
  assumes "q \<le> of_int n"
  shows "round_half_even q \<le> n"
proof -
  from assms have fl: "\<lfloor>q\<rfloor> \<le> n" by (simp add: floor_le_iff)
  show ?thesis
  proof (cases "\<lfloor>q\<rfloor> = n")
    case True
    with assms have "q - of_int \<lfloor>q\<rfloor> \<le> 0" by simp
    then have "q - of_int \<lfloor>q\<rfloor> < 1 / 2" by simp
    with True show ?thesis by (simp add: round_half_even_def Let_def)
  next
    case False
    with fl have "\<lfloor>q\<rfloor> + 1 \<le> n" by simp
    then show ?thesis by (simp add: round_half_even_def Let_def)
  qed
qed

lemma round_half_even_ge:
  assumes "of_int n \<le> q"
  shows "n \<le> round_half_even q"
proof -
  from assms have "n \<le> \<lfloor>q\<rfloor>" by (simp add: le_floor_iff)
  then show ?thesis by (simp add: round_half_even_def Let_def)
qed

lemma round_half_even_abs_le:
  assumes "\<bar>q\<bar> \<le> of_int n"
  shows "\<bar>round_half_even q\<bar> \<le> n"
proof -
  from assms have "q \<le> of_int n" and "of_int (- n) \<le> q" by simp_all
  then have "round_half_even q \<le> n" and "- n \<le> round_half_even q"
    by (simp_all only: round_half_even_le round_half_even_ge)
  then show ?thesis by simp
qed

lemma round_double_abs_le:
  assumes "\<bar>x\<bar> \<le> 2 ^ k"
  shows "\<bar>round_double x\<bar> \<le> 2 ^ k"
proof (cases "x = 0")
  case True
  then show ?thesis by (simp add: round_double_def)
next
  case False
  define e where "e = max (log2_floor \<bar>x\<bar>) (- 1022)"
  define u :: rat where "u = 2 powi (e - 52)"
  from False have pos: "0 < \<bar>x\<bar>" by simp
  have lf: "log2_floor \<bar>x\<bar> \<le> int k"
  proof (rule ccontr)
    assume "\<not> log2_floor \<bar>x\<bar> \<le> int k"
    then have "int k < log2_floor \<bar>x\<bar>" by simp
    then have "(2::rat) powi (int k) < 2 powi (log2_floor \<bar>x\<bar>)"
      by (intro power_int_strict_increasing) simp_all
    also have "\<dots> \<le> \<bar>x\<bar>" using log2_floor_bounds [OF pos] by simp
    finally show False using assms by simp
  qed
  then have ek: "e \<le> int k" by (simp add: e_def)
  have upos: "0 < u" by (simp add: u_def)
  define n :: int where "n = 2 ^ nat (int k - e + 52)"
  have nu: "of_int n * u = 2 ^ k"
  proof -
    have "(of_int n :: rat) = 2 powi (int k - e + 52)"
      using ek by (simp add: n_def power_int_nonneg_exp)
    then have "of_int n * u = 2 powi (int k - e + 52) * 2 powi (e - 52)"
      by (simp add: u_def)
    also have "\<dots> = 2 powi (int k - e + 52 + (e - 52))"
      by (rule power_int_add [symmetric]) simp
    also have "int k - e + 52 + (e - 52) = int k" by simp
    finally show ?thesis by simp
  qed
  have "\<bar>x / u\<bar> \<le> of_int n"
  proof -
    have "\<bar>x\<bar> \<le> of_int n * u" using assms nu by simp
    then show ?thesis using upos by (simp add: field_simps)
  qed
  then have "\<bar>round_half_even (x / u)\<bar> \<le> n" by (rule round_half_even_abs_le)
  then have "\<bar>of_int (round_half_even (x / u)) :: rat\<bar> \<le> of_int n"
    by (simp only: of_int_abs [symmetric] of_int_le_iff)
  then have "\<bar>of_int (round_half_even (x / u)) * u\<bar> \<le> of_int n * u"
    using upos by (simp add: abs_mult)
  moreover have "round_double x = of_int (round_half_even (x / u)) * u"
    using False by (simp add: round_double_def Let_def e_def u_def)
  ultimately show ?thesis using nu by simp
qed



lemma double_result_finite:
  assumes "\<bar>x\<bar> \<le> 2 ^ k" and "k < 1024"
  shows "double_result x = Inr (round_double x)"
proof -
  from round_double_abs_le [OF assms(1)] have "\<bar>round_double x\<bar> \<le> 2 ^ k" .
  also have "(2::rat) ^ k < 2 ^ 1024"
    using assms(2) by (intro power_strict_increasing) simp_all
  finally show ?thesis by (simp add: double_result_def)
qed

lemma double_result_cases:
  "double_result x = Inl OverflowError \<or> double_result x = Inr (round_double x)"
  by (simp add: double_result_def)

lemma binary_fractions:
  "round_double (1 / 2) = 1 / 2" "round_double (3 / 2) = 3 / 2" "round_double (5 / 2) = 5 / 2"
  by code_simp+

lemma of_int_abs_le_power:
  assumes "\<bar>n\<bar> \<le> 2 ^ k"
  shows "\<bar>of_int n :: rat\<bar> \<le> 2 ^ k"
proof -
  have "(of_int \<bar>n\<bar> :: rat) \<le> of_int (2 ^ k)"
    using assms by (simp only: of_int_le_iff)
  then show ?thesis by simp
qed

lemma float_of_int_finite:
  assumes "\<bar>n\<bar> \<le> 2 ^ k" and "k < 1024"
  shows "float_of_int n = Inr (round_double (of_int n))"
  unfolding float_of_int_def
  using of_int_abs_le_power [OF assms(1)] assms(2) by (rule double_result_finite)

lemma int_times_float_finite:
  assumes "\<bar>n\<bar> \<le> 2 ^ k" and "\<bar>c\<bar> \<le> 2 ^ j" and "k + j < 1024"
  shows "int_times_float n c = Inr (round_double (round_double (of_int n) * c))"
proof -
  from assms(3) have k: "k < 1024" by simp
  have "\<bar>round_double (of_int n)\<bar> \<le> 2 ^ k"
    using of_int_abs_le_power [OF assms(1)] by (rule round_double_abs_le)
  then have "\<bar>round_double (of_int n)\<bar> * \<bar>c\<bar> \<le> 2 ^ k * 2 ^ j"
    using assms(2) by (intro mult_mono) simp_all
  then have "\<bar>round_double (of_int n) * c\<bar> \<le> 2 ^ (k + j)"
    by (simp add: abs_mult power_add)
  from double_result_finite [OF this assms(3)] float_of_int_finite [OF assms(1) k]
  show ?thesis by (simp add: int_times_float_def)
qed

lemma float_plus_int_finite:
  assumes "\<bar>x\<bar> \<le> 2 ^ k" and "\<bar>n\<bar> \<le> 2 ^ k" and "Suc k < 1024"
  shows "float_plus_int x n = Inr (round_double (x + round_double (of_int n)))"
proof -
  from assms(3) have k: "k < 1024" by simp
  have "\<bar>round_double (of_int n)\<bar> \<le> 2 ^ k"
    using of_int_abs_le_power [OF assms(2)] by (rule round_double_abs_le)
  with assms(1) have "\<bar>x + round_double (of_int n)\<bar> \<le> 2 ^ Suc k"
    by simp
  from double_result_finite [OF this assms(3)] float_of_int_finite [OF assms(2) k]
  show ?thesis by (simp add: float_plus_int_def)
qed

lemma int_truediv_finite:
  assumes "b \<noteq> 0" and "\<bar>a\<bar> \<le> 2 ^ k" and "k < 1024"
  shows "int_truediv a b = Inr (round_double (of_int a / of_int b))"
proof -
  from assms(1) have "1 \<le> \<bar>b\<bar>" by simp
  then have "(of_int 1 :: rat) \<le> of_int \<bar>b\<bar>" by (simp only: of_int_le_iff)
  then have b1: "(1::rat) \<le> \<bar>of_int b\<bar>" by simp
  have "\<bar>of_int a / of_int b :: rat\<bar> = \<bar>of_int a\<bar> / \<bar>of_int b\<bar>" by simp
  also have "\<dots> \<le> \<bar>of_int a\<bar> / 1"
    using b1 by (intro divide_left_mono) simp_all
  also have "\<dots> \<le> 2 ^ k" using of_int_abs_le_power [OF assms(2)] by simp
  finally have "\<bar>of_int a / of_int b :: rat\<bar> \<le> 2 ^ k" .
  from double_result_finite [OF this assms(3)] assms(1)
  show ?thesis by (simp add: int_truediv_def)
qed

section \<open>Position (claim C6)\<close>

lemma index_of_absent: "y \<notin> set xs \<Longrightarrow> index_of xs y = Inl ValueError"
  by (induction xs) auto

lemma index_of_first:
  "k < length xs \<Longrightarrow> xs ! k = y \<Longrightarrow> y \<notin> set (take k xs) \<Longrightarrow> index_of xs y = Inr k"
proof (induction xs arbitrary: k)
  case Nil
  then show ?case by simp
next
  case (Cons x xs)
  show ?case
  proof (cases k)
    case 0
    with Cons.prems show ?thesis by simp
  next
    case (Suc j)
    with Cons.prems have "x \<noteq> y" "j < length xs" "xs ! j = y" "y \<notin> set (take j xs)"
      by auto
    with Cons.IH [of j] Suc show ?thesis by simp
  qed
qed

lemma index_of_error: "index_of xs y = Inl e \<Longrightarrow> e = ValueError"
  by (induction xs arbitrary: e) (auto simp: bind_r_def split: if_splits sum.splits)

text \<open>
  Claim C6, as stated, at a table of three: the agent sits at relative offset
  \<open>player_count - 1\<close>, where the claim's table says BLINDS, and the function answers LATE,
  because tables of at most three players return LATE before any index is looked up.
\<close>

theorem get_position_small_table_counterexample:
  "relative_pos
     \<lparr>hand = [], is_preflop_aggressor = False, all_player_ids = [1, 2, 3], player_id = Some 3\<rparr>
     \<lparr>round_name = ''Preflop'', current_bet = 0, player_bets = Map.empty, pot = 0,
      min_raise = 0, max_raise = 0, community_cards = [], player_actions = [],
      big_blind_player_id = 1\<rparr> = Inr (int (length [1, 2, 3 :: int]) - 1)
   \<and> get_position
     \<lparr>hand = [], is_preflop_aggressor = False, all_player_ids = [1, 2, 3], player_id = Some 3\<rparr>
     \<lparr>round_name = ''Preflop'', current_bet = 0, player_bets = Map.empty, pot = 0,
      min_raise = 0, max_raise = 0, community_cards = [], player_actions = [],
      big_blind_player_id = 1\<rparr> = Inr LATE"
  by (simp add: relative_pos_def get_position_def)

text \<open>
  Claim C6, amended: at a table of at most three players the position is LATE. At a larger
  table, when the agent's id or the big-blind id is absent from the player list the position
  is LATE; when both are present, with \<open>my\<close> and \<open>bb\<close> their first indices and
  \<open>rel = (my - bb) mod player_count\<close>, the position is BLINDS for \<open>rel\<close> equal to
  \<open>player_count - 1\<close> or \<open>player_count - 2\<close>, LATE for \<open>player_count - 3\<close> or
  \<open>player_count - 4\<close>, MIDDLE for \<open>player_count - 5\<close>, and EARLY otherwise.
\<close>

theorem get_position_table:
  fixes p :: player and rs :: round_state
  assumes ids: "ids = all_player_ids p" and n: "n = int (length ids)"
  shows "(n \<le> 3 \<longrightarrow> get_position p rs = Inr LATE)
    \<and> (player_id p = None \<or> (\<exists>i. player_id p = Some i \<and> i \<notin> set ids)
         \<or> big_blind_player_id rs \<notin> set ids \<longrightarrow> get_position p rs = Inr LATE)
    \<and> (\<forall>i my bb.
          n > 3 \<and> player_id p = Some i
          \<and> my < length ids \<and> ids ! my = i \<and> i \<notin> set (take my ids)
          \<and> bb < length ids \<and> ids ! bb = big_blind_player_id rs
          \<and> big_blind_player_id rs \<notin> set (take bb ids)
          \<longrightarrow> get_position p rs =
                Inr (let rel = (int my - int bb) mod n in
                     if rel = n - 1 \<or> rel = n - 2 then BLINDS
                     else if rel = n - 3 \<or> rel = n - 4 then LATE
                     else if rel = n - 5 then MIDDLE
                     else EARLY))"
proof (intro conjI impI allI)
  assume "n \<le> 3"
  then show "get_position p rs = Inr LATE"
    using ids n by (simp add: get_position_def)
next
  assume absent: "player_id p = None \<or> (\<exists>i. player_id p = Some i \<and> i \<notin> set ids)
         \<or> big_blind_player_id rs \<notin> set ids"
  have "\<exists>e. relative_pos p rs = Inl e"
    using absent
  proof (elim disjE exE conjE)
    assume "player_id p = None"
    then show ?thesis by (simp add: relative_pos_def)
  next
    fix i assume "player_id p = Some i" "i \<notin> set ids"
    then show ?thesis using ids by (simp add: relative_pos_def index_of_absent)
  next
    assume "big_blind_player_id rs \<notin> set ids"
    then have "index_of (all_player_ids p) (big_blind_player_id rs) = Inl ValueError"
      using ids by (simp add: index_of_absent)
    then show ?thesis
      by (simp add: relative_pos_def bind_r_def split: option.splits sum.splits)
  qed
  then obtain e where e: "relative_pos p rs = Inl e" by blast
  then have "e = ValueError"
    by (auto simp: relative_pos_def bind_r_def split: option.splits sum.splits
             dest: index_of_error)
  with e show "get_position p rs = Inr LATE"
    by (simp add: get_position_def Let_def)
next
  fix i my bb
  assume h: "n > 3 \<and> player_id p = Some i
          \<and> my < length ids \<and> ids ! my = i \<and> i \<notin> set (take my ids)
          \<and> bb < length ids \<and> ids ! bb = big_blind_player_id rs
          \<and> big_blind_player_id rs \<notin> set (take bb ids)"
  then have my: "index_of ids i = Inr my" and bb: "index_of ids (big_blind_player_id rs) = Inr bb"
    by (simp_all add: index_of_first)
  have "(int my - int bb + n) mod n = (int my - int bb) mod n"
    by simp
  with my bb h have rel: "relative_pos p rs = Inr ((int my - int bb) mod n)"
    using ids n by (simp add: relative_pos_def)
  show "get_position p rs =
                Inr (let rel = (int my - int bb) mod n in
                     if rel = n - 1 \<or> rel = n - 2 then BLINDS
                     else if rel = n - 3 \<or> rel = n - 4 then LATE
                     else if rel = n - 5 then MIDDLE
                     else EARLY)"
    using h rel ids n by (simp add: get_position_def Let_def)
qed

text \<open>Instances of the table: six seats, three seats, and an absent big-blind id.\<close>

theorem get_position_table_witness:
  "get_position
     \<lparr>hand = [], is_preflop_aggressor = False, all_player_ids = [11, 12, 13, 14, 15, 16],
      player_id = Some 12\<rparr>
     \<lparr>round_name = ''Preflop'', current_bet = 0, player_bets = Map.empty, pot = 0,
      min_raise = 0, max_raise = 0, community_cards = [], player_actions = [],
      big_blind_player_id = 11\<rparr> = Inr MIDDLE
   \<and> get_position
     \<lparr>hand = [], is_preflop_aggressor = False, all_player_ids = [11, 12, 13],
      player_id = Some 12\<rparr>
     \<lparr>round_name = ''Preflop'', current_bet = 0, player_bets = Map.empty, pot = 0,
      min_raise = 0, max_raise = 0, community_cards = [], player_actions = [],
      big_blind_player_id = 11\<rparr> = Inr LATE
   \<and> get_position
     \<lparr>hand = [], is_preflop_aggressor = False, all_player_ids = [11, 12, 13, 14, 15, 16],
      player_id = Some 12\<rparr>
     \<lparr>round_name = ''Preflop'', current_bet = 0, player_bets = Map.empty, pot = 0,
      min_raise = 0, max_raise = 0, community_cards = [], player_actions = [],
      big_blind_player_id = 99\<rparr> = Inr LATE"
proof -
  let ?p6 = "\<lparr>hand = [], is_preflop_aggressor = False,
      all_player_ids = [11, 12, 13, 14, 15, 16 :: int], player_id = Some 12\<rparr>"
  let ?p3 = "\<lparr>hand = [], is_preflop_aggressor = False,
      all_player_ids = [11, 12, 13 :: int], player_id = Some 12\<rparr>"
  let ?rs = "\<lambda>b. \<lparr>round_name = ''Preflop'', current_bet = 0, player_bets = Map.empty, pot = 0,
      min_raise = 0, max_raise = 0, community_cards = [], player_actions = [],
      big_blind_player_id = b\<rparr>"
  note t6 = get_position_table [of "[11, 12, 13, 14, 15, 16]" ?p6 6 "?rs 11"]
  note t3 = get_position_table [of "[11, 12, 13]" ?p3 3 "?rs 11"]
  note t9 = get_position_table [of "[11, 12, 13, 14, 15, 16]" ?p6 6 "?rs 99"]
  have a: "get_position ?p6 (?rs 11) = Inr MIDDLE"
    using t6 [THEN conjunct2, THEN conjunct2, THEN spec, THEN spec, THEN spec, of 12 1 0]
    by simp
  have b: "get_position ?p3 (?rs 11) = Inr LATE"
    using t3 [THEN conjunct1] by simp
  have c: "get_position ?p6 (?rs 99) = Inr LATE"
    using t9 [THEN conjunct2, THEN conjunct1] by simp
  from a b c show ?thesis by simp
qed

section \<open>Raise amounts (claim C8)\<close>

lemma make_raise_bounds:
  "min_raise rs \<le> max_raise rs \<Longrightarrow> make_raise rs a = (act, amt)
   \<Longrightarrow> act = RAISE \<and> min_raise rs \<le> amt \<and> amt \<le> max_raise rs"
  by (auto simp: make_raise_def)

lemma make_bet_bounds:
  "min_raise rs \<le> max_raise rs \<Longrightarrow> make_bet rs a = (act, amt)
   \<Longrightarrow> act = RAISE \<and> min_raise rs \<le> amt \<and> amt \<le> max_raise rs"
  by (auto simp: make_bet_def)

lemma get_preflop_action_raise:
  assumes "get_preflop_action p rs tc = Inr ((RAISE, amt), p')"
    and "min_raise rs \<le> max_raise rs"
  shows "min_raise rs \<le> amt \<and> amt \<le> max_raise rs"
  using assms
  by (auto simp: get_preflop_action_def bind_r_eq_Inr Let_def
           split: if_splits dest: make_raise_bounds)

lemma check_or_bet_raise:
  assumes "check_or_bet p rs cat rnd = Inr (RAISE, amt)"
    and "min_raise rs \<le> max_raise rs"
  shows "min_raise rs \<le> amt \<and> amt \<le> max_raise rs"
  using assms
  by (auto simp: check_or_bet_def bet_fraction_def bind_r_eq_Inr
           split: if_splits dest: make_bet_bounds)

lemma facing_bet_raise:
  assumes "facing_bet p rs cat community tc = Inr (RAISE, amt)"
    and "min_raise rs \<le> max_raise rs"
  shows "min_raise rs \<le> amt \<and> amt \<le> max_raise rs"
  using assms
  by (auto simp: facing_bet_def bind_r_eq_Inr Let_def
           split: if_splits dest: make_raise_bounds)

text \<open>
  Claim C8: whenever \<open>get_action\<close> returns a RAISE and the round state has
  \<open>min_raise \<le> max_raise\<close>, the returned amount lies in \<open>[min_raise, max_raise]\<close>,
  whichever branch computed the target.
\<close>

theorem get_action_raise_within_bounds:
  assumes "get_action p rs rnd = Inr ((RAISE, amt), p')"
    and "min_raise rs \<le> max_raise rs"
  shows "min_raise rs \<le> amt \<and> amt \<le> max_raise rs"
proof (cases "round_name rs = ''Preflop''")
  case True
  with assms(1) have "get_preflop_action p rs (amount_to_call p rs) = Inr ((RAISE, amt), p')"
    by (simp add: get_action_def)
  then show ?thesis using assms(2) by (rule get_preflop_action_raise)
next
  case False
  with assms(1) obtain community cat where
    act: "(if amount_to_call p rs = 0
           then bind_r (check_or_bet p rs cat rnd) (\<lambda>a. Inr (a, p))
           else bind_r (facing_bet p rs cat community (amount_to_call p rs)) (\<lambda>a. Inr (a, p)))
          = Inr ((RAISE, amt), p')"
    by (auto simp: get_action_def Let_def bind_r_eq_Inr)
  show ?thesis
  proof (cases "amount_to_call p rs = 0")
    case True
    with act have "check_or_bet p rs cat rnd = Inr (RAISE, amt)"
      by (auto simp: bind_r_eq_Inr)
    then show ?thesis using assms(2) by (rule check_or_bet_raise)
  next
    case False
    with act have "facing_bet p rs cat community (amount_to_call p rs) = Inr (RAISE, amt)"
      by (auto simp: bind_r_eq_Inr)
    then show ?thesis using assms(2) by (rule facing_bet_raise)
  qed
qed

lemma flop_set_of_aces:
  "parse_cards (community_cards flop_facing_bet) =
     Inr [\<lparr>rank = 14, suit = ''c''\<rparr>, \<lparr>rank = 13, suit = ''d''\<rparr>, \<lparr>rank = 2, suit = ''s''\<rparr>]"
  "evaluate (hand pocket_aces)
     [\<lparr>rank = 14, suit = ''c''\<rparr>, \<lparr>rank = 13, suit = ''d''\<rparr>, \<lparr>rank = 2, suit = ''s''\<rparr>]
   = Inr (THREE_OF_A_KIND, [14, 13, 2])"
  "categorize_hand THREE_OF_A_KIND (hand pocket_aces)
     [\<lparr>rank = 14, suit = ''c''\<rparr>, \<lparr>rank = 13, suit = ''d''\<rparr>, \<lparr>rank = 2, suit = ''s''\<rparr>]
   = Inr MONSTER"
  "amount_to_call pocket_aces flop_facing_bet = 10"
  by code_simp+

lemma set_of_aces_raise_target:
  "\<exists>odds. pot_odds 10 100 = Inr odds"
  "int_times_float 100 (3 / 2) = Inr 150"
  "float_plus_int 150 10 = Inr 160"
proof -
  show "\<exists>odds. pot_odds 10 100 = Inr odds"
    by (simp add: pot_odds_def int_truediv_finite [of _ _ 4])
  have "int_times_float 100 (3 / 2) = Inr (round_double (round_double (of_int 100) * (3 / 2)))"
    by (rule int_times_float_finite [of _ 7 _ 1]) simp_all
  also have "round_double (round_double (of_int 100) * (3 / 2)) = 150" by code_simp
  finally show "int_times_float 100 (3 / 2) = Inr 150" .
  have "float_plus_int 150 10 = Inr (round_double (150 + round_double (of_int 10)))"
    by (rule float_plus_int_finite [of _ 8]) simp_all
  also have "round_double (150 + round_double (of_int 10)) = 160" by code_simp
  finally show "float_plus_int 150 10 = Inr 160" .
qed

lemma get_action_set_of_aces:
  "get_action pocket_aces flop_facing_bet 0 = Inr ((RAISE, 120), pocket_aces)"
proof -
  have rn: "round_name flop_facing_bet \<noteq> ''Preflop''" by (simp add: flop_facing_bet_def)
  have rs: "pot flop_facing_bet = 100" "min_raise flop_facing_bet = 20"
    "max_raise flop_facing_bet = 120"
    by (simp_all add: flop_facing_bet_def)
  from set_of_aces_raise_target(1) obtain odds where odds: "pot_odds 10 100 = Inr odds" ..
  have "facing_bet pocket_aces flop_facing_bet MONSTER
      [\<lparr>rank = 14, suit = ''c''\<rparr>, \<lparr>rank = 13, suit = ''d''\<rparr>, \<lparr>rank = 2, suit = ''s''\<rparr>] 10
    = Inr (RAISE, 120)"
    by (simp add: facing_bet_def rs odds set_of_aces_raise_target(2,3) make_raise_def
                  py_trunc_def)
  then show ?thesis
    by (simp add: get_action_def rn flop_set_of_aces)
qed

text \<open>The bound at a set of aces on the flop: the target 160 is clamped to 120.\<close>

theorem get_action_raise_within_bounds_witness:
  "get_action pocket_aces flop_facing_bet 0 = Inr ((RAISE, 120), pocket_aces)
   \<and> min_raise flop_facing_bet \<le> max_raise flop_facing_bet
   \<and> min_raise flop_facing_bet \<le> 120 \<and> 120 \<le> max_raise flop_facing_bet"
proof -
  have le: "min_raise flop_facing_bet \<le> max_raise flop_facing_bet"
    by (simp add: flop_facing_bet_def)
  from get_action_raise_within_bounds [OF get_action_set_of_aces le]
    get_action_set_of_aces le
  show ?thesis by simp
qed

section \<open>Facing a bet after the flop (claim C4)\<close>

lemma sorted_set_strict: "sorted_wrt (<) (sorted_set xs)"
  by (simp add: sorted_set_def strict_sorted_iff)





lemma draw_outs_range: "0 \<le> draw_outs n u \<and> draw_outs n u \<le> 9"
  by (simp add: draw_outs_def Let_def)

lemma estimate_draw_equity_float:
  assumes "top_suit_count (hole @ community) = Inr n"
  shows "estimate_draw_equity hole community =
     Inr (round_double (of_int (draw_outs n (sorted_set (map rank (hole @ community)))
                                 * (if length community = 3 then 4 else 2)) / 100))"
proof -
  let ?k = "draw_outs n (sorted_set (map rank (hole @ community)))
              * (if length community = 3 then 4 else 2)"
  from draw_outs_range [of n "sorted_set (map rank (hole @ community))"]
  have kb: "\<bar>?k\<bar> \<le> 2 ^ 6" by (simp add: abs_mult)
  have "int_truediv ?k 100 = Inr (round_double (of_int ?k / of_int 100))"
    by (rule int_truediv_finite [OF _ kb]) simp_all
  then show ?thesis
    by (simp add: estimate_draw_equity_def Let_def assms)
qed


lemma category_value_eq_iff [simp]: "category_value a = category_value b \<longleftrightarrow> a = b"
  by (cases a; cases b) simp_all












section \<open>Draw detection in the categorizer (claim C3)\<close>

text \<open>
  Claim C3: the draw heuristic of \<open>categorize_hand\<close> runs only when hole and community
  cards together number fewer than five. With five or more combined cards the function
  returns neither STRONG_DRAW nor WEAK_DRAW, and a hand with no made rank (HIGH_CARD) is
  AIR whatever draw it holds. With fewer than five cards and a rank below two pair, a
  detected draw (four cards of a suit, or a 4-rank window of span at most 4) gives
  STRONG_DRAW.
\<close>

theorem categorize_hand_draws_only_below_five:
  "(length (hole @ community) \<ge> 5 \<longrightarrow>
      categorize_hand rnk hole community \<noteq> Inr STRONG_DRAW
      \<and> categorize_hand rnk hole community \<noteq> Inr WEAK_DRAW
      \<and> (rnk = HIGH_CARD \<longrightarrow> categorize_hand rnk hole community = Inr AIR))
   \<and> (length (hole @ community) < 5 \<and> (rnk = HIGH_CARD \<or> rnk = PAIR)
        \<and> draw_detected (hole @ community) = Inr True \<longrightarrow>
      categorize_hand rnk hole community = Inr STRONG_DRAW)"
proof (intro conjI impI)
  assume five: "length (hole @ community) \<ge> 5"
  then have nodraw: "\<not> length (hole @ community) < 5" by simp
  show "categorize_hand rnk hole community \<noteq> Inr STRONG_DRAW"
    using nodraw
    by (auto simp: categorize_hand_def pair_category_def bind_r_eq_Inr Let_def
             split: if_splits)
  show "categorize_hand rnk hole community \<noteq> Inr WEAK_DRAW"
    using nodraw
    by (auto simp: categorize_hand_def pair_category_def bind_r_eq_Inr Let_def
             split: if_splits)
  show "categorize_hand rnk hole community = Inr AIR" if "rnk = HIGH_CARD"
    using nodraw that by (simp add: categorize_hand_def Let_def)
next
  assume "length (hole @ community) < 5 \<and> (rnk = HIGH_CARD \<or> rnk = PAIR)
        \<and> draw_detected (hole @ community) = Inr True"
  then show "categorize_hand rnk hole community = Inr STRONG_DRAW"
    by (auto simp: categorize_hand_def Let_def)
qed

lemma four_hearts_draw_detected:
  "draw_detected (hand seven_six_hearts @ [\<lparr>rank = 5, suit = ''h''\<rparr>, \<lparr>rank = 2, suit = ''h''\<rparr>])
   = Inr True"
  by code_simp

text \<open>
  Seven-six of hearts with two more hearts: on the three-card flop (five cards in all) the
  draw is AIR; with only two community cards (four cards in all) it is a STRONG_DRAW.
\<close>

theorem categorize_hand_draws_only_below_five_witness:
  "categorize_hand HIGH_CARD (hand seven_six_hearts)
     [\<lparr>rank = 5, suit = ''h''\<rparr>, \<lparr>rank = 2, suit = ''h''\<rparr>, \<lparr>rank = 9, suit = ''c''\<rparr>] = Inr AIR
   \<and> categorize_hand HIGH_CARD (hand seven_six_hearts)
     [\<lparr>rank = 5, suit = ''h''\<rparr>, \<lparr>rank = 2, suit = ''h''\<rparr>] = Inr STRONG_DRAW"
proof -
  have len: "length (hand seven_six_hearts) = 2" by (simp add: seven_six_hearts_def)
  have a: "categorize_hand HIGH_CARD (hand seven_six_hearts)
     [\<lparr>rank = 5, suit = ''h''\<rparr>, \<lparr>rank = 2, suit = ''h''\<rparr>, \<lparr>rank = 9, suit = ''c''\<rparr>] = Inr AIR"
    using categorize_hand_draws_only_below_five
      [of "hand seven_six_hearts"
          "[\<lparr>rank = 5, suit = ''h''\<rparr>, \<lparr>rank = 2, suit = ''h''\<rparr>, \<lparr>rank = 9, suit = ''c''\<rparr>]"
          HIGH_CARD, THEN conjunct1]
      len
    by simp
  have b: "categorize_hand HIGH_CARD (hand seven_six_hearts)
     [\<lparr>rank = 5, suit = ''h''\<rparr>, \<lparr>rank = 2, suit = ''h''\<rparr>] = Inr STRONG_DRAW"
    using categorize_hand_draws_only_below_five
      [of "hand seven_six_hearts"
          "[\<lparr>rank = 5, suit = ''h''\<rparr>, \<lparr>rank = 2, suit = ''h''\<rparr>]" HIGH_CARD, THEN conjunct2]
      len four_hearts_draw_detected
    by simp
  from a b show ?thesis ..
qed

section \<open>The draw-equity estimate (claim C7)\<close>

lemma sort_key_head:
  assumes "ys \<noteq> []"
  shows "\<exists>y. take 1 (sort_key f ys) = [y] \<and> y \<in> set ys \<and> (\<forall>z \<in> set ys. f y \<le> f z)"
proof -
  have "length (sort_key f ys) = length ys" by simp
  with assms obtain y rest where yr: "sort_key f ys = y # rest"
    by (cases "sort_key f ys") auto
  have "sorted (map f (sort_key f ys))" by (rule sorted_sort_key)
  with yr have le: "\<forall>z \<in> set rest. f y \<le> f z" by simp
  have "set (y # rest) = set ys" using yr set_sort [of f ys] by simp
  with le yr show ?thesis by auto
qed

lemma set_counter: "set (counter xs) = (\<lambda>k. (k, count_list xs k)) ` set xs"
  by (simp add: counter_def)

lemma counter_Nil_iff: "counter xs = [] \<longleftrightarrow> xs = []"
  by (simp add: counter_def)

lemma most_common_top:
  assumes "xs \<noteq> []"
  shows "\<exists>k. most_common 1 xs = [(k, count_list xs k)] \<and> k \<in> set xs
           \<and> (\<forall>j \<in> set xs. count_list xs j \<le> count_list xs k)"
proof -
  from assms have "counter xs \<noteq> []" by (simp add: counter_Nil_iff)
  from sort_key_head [OF this, of "\<lambda>kc. - int (snd kc)"] obtain y where
    y: "take 1 (sort_key (\<lambda>kc. - int (snd kc)) (counter xs)) = [y]" "y \<in> set (counter xs)"
       "\<forall>z \<in> set (counter xs). - int (snd y) \<le> - int (snd z)"
    by blast
  from y(2) obtain k where k: "k \<in> set xs" "y = (k, count_list xs k)"
    by (auto simp: set_counter)
  have "\<forall>j \<in> set xs. count_list xs j \<le> count_list xs k"
  proof
    fix j assume "j \<in> set xs"
    then have "(j, count_list xs j) \<in> set (counter xs)" by (auto simp: set_counter)
    with y(3) k(2) show "count_list xs j \<le> count_list xs k" by fastforce
  qed
  with y(1) k show ?thesis by (auto simp: most_common_def)
qed

lemma top_suit_count_max:
  assumes "cards \<noteq> []"
  shows "\<exists>s. top_suit_count cards = Inr (count_list (map suit cards) s)
           \<and> s \<in> set (map suit cards)
           \<and> (\<forall>j \<in> set (map suit cards).
                 count_list (map suit cards) j \<le> count_list (map suit cards) s)"
proof -
  from assms have "map suit cards \<noteq> []" by simp
  from most_common_top [OF this] show ?thesis
    by (auto simp: top_suit_count_def idx_def)
qed

lemma four_flush_iff_top_count:
  assumes top: "top_suit_count cards = Inr n"
  shows "four_flush cards \<longleftrightarrow> n = 4"
proof -
  have ne: "cards \<noteq> []"
    using top by (auto simp: top_suit_count_def most_common_def counter_def idx_def)
  from top_suit_count_max [OF ne] top obtain s where
    s: "n = count_list (map suit cards) s" "s \<in> set (map suit cards)"
       "\<forall>j \<in> set (map suit cards). count_list (map suit cards) j \<le> n"
    by auto
  show ?thesis
  proof
    assume ff: "four_flush cards"
    then obtain t where t: "t \<in> set (map suit cards)" "count_list (map suit cards) t = 4"
      by (auto simp: four_flush_def)
    with s(3) have "4 \<le> n" by force
    moreover from ff s(1,2) have "n \<le> 4" by (auto simp: four_flush_def)
    ultimately show "n = 4" by simp
  next
    assume "n = 4"
    with s show "four_flush cards" by (auto simp: four_flush_def)
  qed
qed

lemma sorted_set_conv: "sorted_list_of_set (set xs) = sorted_set xs"
  by (simp add: sorted_set_def sorted_list_of_set_sort_remdups)

lemma strict_window:
  assumes u: "sorted_wrt (<) (u :: int list)" and i: "i + 3 < length u"
  shows "rank_span (take 4 (drop i u)) = u ! (i + 3) - u ! i"
proof -
  have w: "take 4 (drop i u) = [u ! i, u ! (i + 1), u ! (i + 2), u ! (i + 3)]"
    using i by (auto simp: list_eq_iff_nth_eq nth_Cons' eval_nat_numeral less_Suc_eq)
  have "u ! i < u ! (i + 1)" "u ! (i + 1) < u ! (i + 2)" "u ! (i + 2) < u ! (i + 3)"
    using u i by (simp_all add: sorted_wrt_nth_less)
  then show ?thesis
    unfolding w rank_span_def by simp
qed

lemma spans_conv:
  assumes "sorted_wrt (<) (u :: int list)"
  shows "map rank_span (rank_windows u) = window_spans u"
  using assms
  by (auto simp: rank_windows_def window_spans_def strict_window)

lemma four_flush_outs_conv:
  assumes "top_suit_count cards = Inr n"
  shows "four_flush_outs cards = draw_outs n (sorted_set (map rank cards))"
proof -
  let ?u = "sorted_set (map rank cards)"
  have sp: "map rank_span (rank_windows ?u) = window_spans ?u"
    by (rule spans_conv) (rule sorted_set_strict)
  have nowin: "window_spans ?u = []" if "\<not> 4 \<le> length ?u"
    using that by (simp add: window_spans_def)
  have "four_flush_outs cards =
     (let outs = (if n = 4 then 9 else 0); spans = window_spans ?u
      in if 3 \<in> set spans then max outs 8
         else if 4 \<in> set spans then max outs 4
         else outs)"
    by (simp only: four_flush_outs_def rule_outs_def sorted_set_conv sp
                   four_flush_iff_top_count [OF assms])
  also have "\<dots> = draw_outs n ?u"
    using nowin by (cases "4 \<le> length ?u") (simp_all add: draw_outs_def list_ex_iff Let_def)
  finally show ?thesis .
qed

lemma flush_draw_parse:
  "parse_cards [''7h'', ''6h''] = Inr (hand seven_six_hearts)"
  "parse_cards [''5h'', ''2h'', ''9c''] =
     Inr [\<lparr>rank = 5, suit = ''h''\<rparr>, \<lparr>rank = 2, suit = ''h''\<rparr>, \<lparr>rank = 9, suit = ''c''\<rparr>]"
  "parse_cards [''5h'', ''2h'', ''9h''] =
     Inr [\<lparr>rank = 5, suit = ''h''\<rparr>, \<lparr>rank = 2, suit = ''h''\<rparr>, \<lparr>rank = 9, suit = ''h''\<rparr>]"
  by code_simp+

lemma flush_draw_equity:
  "estimate_draw_equity (hand seven_six_hearts)
     [\<lparr>rank = 5, suit = ''h''\<rparr>, \<lparr>rank = 2, suit = ''h''\<rparr>, \<lparr>rank = 9, suit = ''c''\<rparr>]
   = Inr (round_double (36 / 100))"
proof -
  have top: "top_suit_count (hand seven_six_hearts
      @ [\<lparr>rank = 5, suit = ''h''\<rparr>, \<lparr>rank = 2, suit = ''h''\<rparr>, \<lparr>rank = 9, suit = ''c''\<rparr>])
    = Inr 4"
    by code_simp
  have outs: "draw_outs 4 (sorted_set (map rank (hand seven_six_hearts
      @ [\<lparr>rank = 5, suit = ''h''\<rparr>, \<lparr>rank = 2, suit = ''h''\<rparr>, \<lparr>rank = 9, suit = ''c''\<rparr>]))) = 9"
    by code_simp
  show ?thesis
    using estimate_draw_equity_float [OF top] outs by simp
qed

lemma made_flush_equity:
  "estimate_draw_equity (hand seven_six_hearts)
     [\<lparr>rank = 5, suit = ''h''\<rparr>, \<lparr>rank = 2, suit = ''h''\<rparr>, \<lparr>rank = 9, suit = ''h''\<rparr>]
   = Inr (round_double (16 / 100))"
proof -
  have top: "top_suit_count (hand seven_six_hearts
      @ [\<lparr>rank = 5, suit = ''h''\<rparr>, \<lparr>rank = 2, suit = ''h''\<rparr>, \<lparr>rank = 9, suit = ''h''\<rparr>])
    = Inr 5"
    by code_simp
  have outs: "draw_outs 5 (sorted_set (map rank (hand seven_six_hearts
      @ [\<lparr>rank = 5, suit = ''h''\<rparr>, \<lparr>rank = 2, suit = ''h''\<rparr>, \<lparr>rank = 9, suit = ''h''\<rparr>]))) = 4"
    by code_simp
  show ?thesis
    using estimate_draw_equity_float [OF top] outs by simp
qed

text \<open>
  Claim C7, as stated, at the made flush 7h 6h on 5h 2h 9h: four cards of one suit exist
  among the five hearts, so the rule of the claim counts nine outs and gives
  \<open>9 * 4 / 100\<close>, the float 0.36. The code counts the flush outs only when the most
  frequent suit is held by exactly four cards; here it counts the four outs of the gutshot
  5-6-7-9 and returns the float 0.16.
\<close>

theorem estimate_draw_equity_made_flush_counterexample:
  "spec_outs (hand seven_six_hearts
     @ [\<lparr>rank = 5, suit = ''h''\<rparr>, \<lparr>rank = 2, suit = ''h''\<rparr>, \<lparr>rank = 9, suit = ''h''\<rparr>]) = 9
   \<and> bind_r (parse_cards [''7h'', ''6h'']) (\<lambda>hole.
       bind_r (parse_cards [''5h'', ''2h'', ''9h'']) (\<lambda>community.
         estimate_draw_equity hole community)) = Inr (round_double (16 / 100))
   \<and> round_double (16 / 100) \<noteq> round_double (of_int (9 * 4) / 100)"
proof -
  have a: "spec_outs (hand seven_six_hearts
     @ [\<lparr>rank = 5, suit = ''h''\<rparr>, \<lparr>rank = 2, suit = ''h''\<rparr>, \<lparr>rank = 9, suit = ''h''\<rparr>]) = 9"
    by code_simp
  have b: "bind_r (parse_cards [''7h'', ''6h'']) (\<lambda>hole.
       bind_r (parse_cards [''5h'', ''2h'', ''9h'']) (\<lambda>community.
         estimate_draw_equity hole community)) = Inr (round_double (16 / 100))"
    by (simp only: flush_draw_parse bind_r_Inr made_flush_equity)
  have c: "round_double (16 / 100) \<noteq> round_double (of_int (9 * 4) / 100)"
    by code_simp
  from a b c show ?thesis by blast
qed

text \<open>
  Claim C7, amended: for a two-card hand and any community card list, the estimate is the
  float \<open>(outs * multiplier) / 100\<close>, the float nearest to that quotient, where outs is 9
  for a four-flush (some suit is held by exactly four of the combined cards and no suit by
  more), raised to \<open>max outs 8\<close> when some 4-rank window of the unique ranks has span
  exactly 3, otherwise to \<open>max outs 4\<close> when some window has span exactly 4; the multiplier
  is 4 with exactly three community cards and 2 otherwise (in particular with four). For
  hole 7h 6h and community 5h 2h 9c the estimate is the float 0.36.
\<close>

theorem estimate_draw_equity_outs_rule:
  "(length hole = 2 \<longrightarrow>
      estimate_draw_equity hole community =
        Inr (round_double
               (of_int (four_flush_outs (hole @ community)
                          * (if length community = 3 then 4 else 2)) / 100)))
   \<and> bind_r (parse_cards [''7h'', ''6h'']) (\<lambda>hole.
       bind_r (parse_cards [''5h'', ''2h'', ''9c'']) (\<lambda>community.
         estimate_draw_equity hole community)) = Inr (round_double (36 / 100))"
proof (intro conjI impI)
  assume h: "length hole = 2"
  then have ne: "hole @ community \<noteq> []" by auto
  from top_suit_count_max [OF ne] obtain n where
    n: "top_suit_count (hole @ community) = Inr n" by blast
  show "estimate_draw_equity hole community =
        Inr (round_double
               (of_int (four_flush_outs (hole @ community)
                          * (if length community = 3 then 4 else 2)) / 100))"
    by (simp only: estimate_draw_equity_float [OF n] four_flush_outs_conv [OF n])
next
  show "bind_r (parse_cards [''7h'', ''6h'']) (\<lambda>hole.
       bind_r (parse_cards [''5h'', ''2h'', ''9c'']) (\<lambda>community.
         estimate_draw_equity hole community)) = Inr (round_double (36 / 100))"
    by (simp only: flush_draw_parse bind_r_Inr flush_draw_equity)
qed

lemma flush_draw_four_flush_outs:
  "four_flush_outs (hand seven_six_hearts
     @ [\<lparr>rank = 5, suit = ''h''\<rparr>, \<lparr>rank = 2, suit = ''h''\<rparr>, \<lparr>rank = 9, suit = ''c''\<rparr>]) = 9"
  by code_simp

text \<open>The rule at the flush draw 7h 6h on 5h 2h 9c: nine outs, times four, over 100.\<close>

theorem estimate_draw_equity_outs_rule_witness:
  "estimate_draw_equity (hand seven_six_hearts)
     [\<lparr>rank = 5, suit = ''h''\<rparr>, \<lparr>rank = 2, suit = ''h''\<rparr>, \<lparr>rank = 9, suit = ''c''\<rparr>]
   = Inr (round_double (of_int (9 * 4) / 100))"
proof -
  have len: "length (hand seven_six_hearts) = 2" by (simp add: seven_six_hearts_def)
  from estimate_draw_equity_outs_rule
      [of "hand seven_six_hearts"
          "[\<lparr>rank = 5, suit = ''h''\<rparr>, \<lparr>rank = 2, suit = ''h''\<rparr>, \<lparr>rank = 9, suit = ''c''\<rparr>]",
       THEN conjunct1]
    len
  have "estimate_draw_equity (hand seven_six_hearts)
     [\<lparr>rank = 5, suit = ''h''\<rparr>, \<lparr>rank = 2, suit = ''h''\<rparr>, \<lparr>rank = 9, suit = ''c''\<rparr>]
   = Inr (round_double (of_int (four_flush_outs (hand seven_six_hearts
     @ [\<lparr>rank = 5, suit = ''h''\<rparr>, \<lparr>rank = 2, suit = ''h''\<rparr>, \<lparr>rank = 9, suit = ''c''\<rparr>]) * 4)
       / 100))"
    by simp
  then show ?thesis by (simp only: flush_draw_four_flush_outs)
qed

section \<open>The range matcher on the tokens 99+ and ATs+ (claim C5)\<close>

lemma rank_text_simps [simp]:
  "rank_text 8 = ''8''" "rank_text 9 = ''9''" "rank_text 10 = ''T''"
  "rank_text 13 = ''K''" "rank_text 14 = ''A''"
  by code_simp+

lemma base_rank_simps:
  "Card ''9s'' = Inr \<lparr>rank = 9, suit = ''s''\<rparr>" "Card ''Ts'' = Inr \<lparr>rank = 10, suit = ''s''\<rparr>"
  by code_simp+

text \<open>
  The parts of claim C5 that hold, for all suits and both storage orders: 99+ matches a
  pair of nines and a pair of kings and not a pair of eights; ATs+ matches suited ace-ten
  and suited ace-king and does not match offsuit ace-ten.
\<close>

lemma pair_range_99_plus:
  "is_in_range [\<lparr>rank = 9, suit = s\<rparr>, \<lparr>rank = 9, suit = t\<rparr>] [''99+''] = Inr True"
  "is_in_range [\<lparr>rank = 13, suit = s\<rparr>, \<lparr>rank = 13, suit = t\<rparr>] [''99+''] = Inr True"
  "is_in_range [\<lparr>rank = 8, suit = s\<rparr>, \<lparr>rank = 8, suit = t\<rparr>] [''99+''] = Inr False"
  by (simp_all add: is_in_range_def get_hand_string_def token_matches_def endswith_def
        idx_def base_rank_simps Let_def)

lemma suited_range_ATs_plus:
  "is_in_range [\<lparr>rank = 14, suit = s\<rparr>, \<lparr>rank = 10, suit = s\<rparr>] [''ATs+''] = Inr True"
  "is_in_range [\<lparr>rank = 10, suit = s\<rparr>, \<lparr>rank = 14, suit = s\<rparr>] [''ATs+''] = Inr True"
  "is_in_range [\<lparr>rank = 14, suit = s\<rparr>, \<lparr>rank = 13, suit = s\<rparr>] [''ATs+''] = Inr True"
  "is_in_range [\<lparr>rank = 13, suit = s\<rparr>, \<lparr>rank = 14, suit = s\<rparr>] [''ATs+''] = Inr True"
  "s \<noteq> t \<Longrightarrow>
     is_in_range [\<lparr>rank = 14, suit = s\<rparr>, \<lparr>rank = 10, suit = t\<rparr>] [''ATs+''] = Inr False"
  "s \<noteq> t \<Longrightarrow>
     is_in_range [\<lparr>rank = 10, suit = s\<rparr>, \<lparr>rank = 14, suit = t\<rparr>] [''ATs+''] = Inr False"
  "is_in_range [\<lparr>rank = 14, suit = s\<rparr>, \<lparr>rank = 9, suit = s\<rparr>] [''ATs+''] = Inr False"
  by (simp_all add: is_in_range_def get_hand_string_def token_matches_def endswith_def
        idx_def base_rank_simps Let_def)

text \<open>
  Claim C5 at the hand dealt as \<^verbatim>\<open>9s As\<close>: suited ace-nine stored nine first. The hand
  string is the normalised \<^verbatim>\<open>A9s\<close>, but the second-card test of the s+ branch reads the
  second stored card, the ace, so ATs+ matches; stored ace first it does not.
\<close>

theorem is_in_range_ATs_plus_ace_nine_stored_low_first:
  "bind_r (parse_cards [''9s'', ''As'']) (\<lambda>hole. is_in_range hole [''ATs+'']) = Inr True
   \<and> bind_r (parse_cards [''9s'', ''As'']) get_hand_string = Inr ''A9s''
   \<and> bind_r (parse_cards [''As'', ''9s'']) (\<lambda>hole. is_in_range hole [''ATs+'']) = Inr False"
  by code_simp

section \<open>Span-form entries of the range table (claim C10)\<close>

lemma dash_entries:
  "filter has_dash table_tokens =
     [''22-99'', ''22-88'', ''22-77'', ''A2s-A7s'', ''22-88'', ''A2s-ATs'']"
  by code_simp

lemma list_two: "length xs = 2 \<longleftrightarrow> (\<exists>a b. xs = [a, b])"
  by (auto simp: length_Suc_conv eval_nat_numeral)

lemma digit_chars: "map (\<lambda>n. char_of (48 + n)) [0..<10] = ''0123456789''"
  by code_simp

lemma digit_char:
  assumes "(n :: nat) < 10"
  shows "is_digit (char_of (48 + n))"
proof -
  from assms have "char_of (48 + n) = map (\<lambda>n. char_of (48 + n)) [0..<10] ! n"
    by simp
  also have "\<dots> \<in> set (map (\<lambda>n. char_of (48 + n)) [0..<10])"
    using assms by (intro nth_mem) simp
  finally show ?thesis
    unfolding digit_chars is_digit_def .
qed

lemma str_nat_digits: "c \<in> set (str_nat n) \<Longrightarrow> is_digit c"
proof (induction n rule: str_nat.induct)
  case (1 n)
  show ?case
  proof (cases "n < 10")
    case True
    with "1.prems" show ?thesis
      by (subst (asm) str_nat.simps) (simp add: digit_char)
  next
    case False
    with "1.prems" have "c \<in> set (str_nat (n div 10)) \<or> c = char_of (48 + n mod 10)"
      by (subst (asm) str_nat.simps) auto
    with "1.IH" False show ?thesis by (auto simp: digit_char)
  qed
qed

lemma rank_text_chars:
  assumes "c \<in> set (rank_text r)"
  shows "is_digit c \<or> c \<in> set ''-TJQKA''"
proof -
  from assms have "c \<in> set ''TJQKA'' \<or> c \<in> set (py_str r)"
    by (auto simp: rank_text_def split: option.splits if_splits)
  then show ?thesis
    by (auto simp: py_str_def dest: str_nat_digits split: if_splits)
qed

lemma rank_text_no_suffix_char:
  "CHR ''s'' \<notin> set (rank_text r)" "CHR ''o'' \<notin> set (rank_text r)"
  using rank_text_chars [of "CHR ''s''" r] rank_text_chars [of "CHR ''o''" r]
  by (auto simp: is_digit_def)

lemma get_hand_string_forms:
  assumes "get_hand_string hole = Inr hs"
  shows "\<exists>r1 r2. (hs = rank_text r1 @ rank_text r1)
            \<or> (hs = rank_text r1 @ rank_text r2 @ ''s'')
            \<or> (hs = rank_text r1 @ rank_text r2 @ ''o'')"
  using assms
  by (auto simp: get_hand_string_def Let_def split: list.splits if_splits)

lemma hand_string_not_span:
  assumes "get_hand_string hole = Inr hs"
    and "r \<in> set [''22-99'', ''22-88'', ''22-77'', ''A2s-A7s'', ''A2s-ATs'']"
  shows "hs \<noteq> r"
proof
  assume eq: "hs = r"
  from get_hand_string_forms [OF assms(1)] obtain r1 r2 where
    forms: "(hs = rank_text r1 @ rank_text r1)
            \<or> (hs = rank_text r1 @ rank_text r2 @ ''s'')
            \<or> (hs = rank_text r1 @ rank_text r2 @ ''o'')"
    by blast
  from assms(2) have odd: "odd (length r)" by auto
  from forms show False
  proof (elim disjE)
    assume "hs = rank_text r1 @ rank_text r1"
    then have "even (length hs)" by simp
    with odd eq show False by simp
  next
    assume s: "hs = rank_text r1 @ rank_text r2 @ ''s''"
    then have body: "butlast hs = rank_text r1 @ rank_text r2" and l: "last hs = CHR ''s''"
      by (simp_all add: butlast_append)
    from assms(2) eq l have "CHR ''s'' \<in> set (butlast hs)" by auto
    with body rank_text_no_suffix_char(1) show False by auto
  next
    assume "hs = rank_text r1 @ rank_text r2 @ ''o''"
    then have "last hs = CHR ''o''" by simp
    with assms(2) eq show False by auto
  qed
qed

lemma span_token_never_matches:
  assumes "get_hand_string hole = Inr hs"
    and "r \<in> set [''22-99'', ''22-88'', ''22-77'', ''A2s-A7s'', ''A2s-ATs'']"
  shows "token_matches hs c1 c2 r = Inr False"
proof -
  from assms(2) have "length r \<noteq> 2" "\<not> endswith r ''+''"
    by (auto simp: endswith_def)
  with hand_string_not_span [OF assms] show ?thesis
    by (simp add: token_matches_def)
qed

lemma range_loop_skips_span_tokens:
  assumes "get_hand_string hole = Inr hs"
    and "\<forall>r \<in> set rs. has_dash r \<longrightarrow> r \<in> set table_tokens"
  shows "range_loop hs c1 c2 rs = range_loop hs c1 c2 (filter (\<lambda>r. \<not> has_dash r) rs)"
  using assms(2)
proof (induction rs)
  case Nil
  show ?case by simp
next
  case (Cons r rs)
  then have IH: "range_loop hs c1 c2 rs = range_loop hs c1 c2 (filter (\<lambda>r. \<not> has_dash r) rs)"
    by simp
  show ?case
  proof (cases "has_dash r")
    case True
    with Cons.prems have "r \<in> set (filter has_dash table_tokens)" by simp
    then have "r \<in> set [''22-99'', ''22-88'', ''22-77'', ''A2s-A7s'', ''A2s-ATs'']"
      unfolding dash_entries by auto
    from span_token_never_matches [OF assms(1) this] True IH show ?thesis by simp
  next
    case False
    then show ?thesis by (simp add: IH cong: if_cong)
  qed
qed

lemma range_loop_true:
  "range_loop hs c1 c2 rs = Inr True \<Longrightarrow> \<exists>r \<in> set rs. token_matches hs c1 c2 r = Inr True"
  by (induction rs) (auto simp: bind_r_eq_Inr split: if_splits)

lemma get_hand_string_two: "length hole = 2 \<Longrightarrow> \<exists>hs. get_hand_string hole = Inr hs"
proof -
  assume "length hole = 2"
  then have "length (sort_key (\<lambda>c. - rank c) hole) = 2" by simp
  then obtain a b where "sort_key (\<lambda>c. - rank c) hole = [a, b]"
    unfolding list_two by blast
  then show ?thesis by (simp add: get_hand_string_def Let_def)
qed

text \<open>
  Claim C10: for every two-card hand, a dash-form entry of the configured range table
  (\<^verbatim>\<open>22-99\<close>, \<^verbatim>\<open>22-88\<close>, \<^verbatim>\<open>22-77\<close>, \<^verbatim>\<open>A2s-A7s\<close>, \<^verbatim>\<open>A2s-ATs\<close>) matches nothing. A token list
  whose dash tokens are table entries gives the same answer with the dash tokens removed,
  and it answers True only when one of its dash-free tokens matches on its own.
\<close>

theorem is_in_range_span_tokens_inert:
  assumes two: "length hole = 2"
    and tab: "\<forall>r \<in> set rs. has_dash r \<longrightarrow> r \<in> set table_tokens"
  shows "(\<forall>r \<in> set table_tokens. has_dash r \<longrightarrow> is_in_range hole [r] = Inr False)
    \<and> is_in_range hole rs = is_in_range hole (filter (\<lambda>r. \<not> has_dash r) rs)
    \<and> (is_in_range hole rs = Inr True \<longrightarrow>
         (\<exists>r \<in> set rs. \<not> has_dash r \<and> is_in_range hole [r] = Inr True))"
proof -
  from get_hand_string_two [OF two] obtain hs where hs: "get_hand_string hole = Inr hs"
    by blast
  from two obtain c1 c2 where hole: "hole = [c1, c2]"
    unfolding list_two by blast
  have loop: "is_in_range hole ts = range_loop hs c1 c2 ts" for ts
    by (simp add: is_in_range_def hs hole [symmetric]) (simp add: hole)
  have a: "\<forall>r \<in> set table_tokens. has_dash r \<longrightarrow> is_in_range hole [r] = Inr False"
  proof (intro ballI impI)
    fix r assume "r \<in> set table_tokens" "has_dash r"
    then have "r \<in> set (filter has_dash table_tokens)" by simp
    then have "r \<in> set [''22-99'', ''22-88'', ''22-77'', ''A2s-A7s'', ''A2s-ATs'']"
      unfolding dash_entries by auto
    from span_token_never_matches [OF hs this]
    show "is_in_range hole [r] = Inr False" by (simp add: loop)
  qed
  have b: "is_in_range hole rs = is_in_range hole (filter (\<lambda>r. \<not> has_dash r) rs)"
    using range_loop_skips_span_tokens [OF hs tab] by (simp add: loop)
  have c: "\<exists>r \<in> set rs. \<not> has_dash r \<and> is_in_range hole [r] = Inr True"
    if "is_in_range hole rs = Inr True"
  proof -
    from that b have "range_loop hs c1 c2 (filter (\<lambda>r. \<not> has_dash r) rs) = Inr True"
      by (simp add: loop)
    from range_loop_true [OF this] obtain r where
      "r \<in> set rs" "\<not> has_dash r" "token_matches hs c1 c2 r = Inr True" by auto
    then show ?thesis by (auto simp: loop)
  qed
  from a b c show ?thesis by blast
qed

lemma early_call_range:
  "\<forall>r \<in> set (call (preflop_ranges EARLY)). has_dash r \<longrightarrow> r \<in> set table_tokens"
  by code_simp

lemma pocket_fives_early_call:
  "is_in_range [\<lparr>rank = 5, suit = ''h''\<rparr>, \<lparr>rank = 5, suit = ''d''\<rparr>]
     (filter (\<lambda>r. \<not> has_dash r) (call (preflop_ranges EARLY))) = Inr False"
  by code_simp

text \<open>Pocket fives are not in the early call range, though its first entry is 22-99.\<close>

theorem is_in_range_span_tokens_inert_witness:
  "is_in_range [\<lparr>rank = 5, suit = ''h''\<rparr>, \<lparr>rank = 5, suit = ''d''\<rparr>]
     (call (preflop_ranges EARLY)) = Inr False
   \<and> is_in_range [\<lparr>rank = 5, suit = ''h''\<rparr>, \<lparr>rank = 5, suit = ''d''\<rparr>] [''22-99''] = Inr False"
proof -
  have two: "length [\<lparr>rank = 5, suit = ''h''\<rparr>, \<lparr>rank = 5, suit = ''d''\<rparr>] = 2" by simp
  note t = is_in_range_span_tokens_inert [OF two early_call_range]
  have mem: "''22-99'' \<in> set table_tokens \<and> has_dash ''22-99''" by code_simp
  from t [THEN conjunct2, THEN conjunct1] pocket_fives_early_call
  have a: "is_in_range [\<lparr>rank = 5, suit = ''h''\<rparr>, \<lparr>rank = 5, suit = ''d''\<rparr>]
     (call (preflop_ranges EARLY)) = Inr False"
    by simp
  from t [THEN conjunct1] mem
  have b: "is_in_range [\<lparr>rank = 5, suit = ''h''\<rparr>, \<lparr>rank = 5, suit = ''d''\<rparr>] [''22-99'']
      = Inr False"
    by blast
  from a b show ?thesis ..
qed

section \<open>Malformed card text (claim C9)\<close>

lemma py_int_error: "py_int s = Inl e \<Longrightarrow> e = ValueError"
  by (auto simp: py_int_def Let_def split: option.splits)

lemma Card_total: "\<exists>c. Card s = Inr c"
proof (cases "py_int (butlast s)")
  case (Inl e)
  with py_int_error have "e = ValueError" by blast
  with Inl show ?thesis by (simp add: Card_def Let_def split: option.splits)
next
  case (Inr v)
  then show ?thesis by (simp add: Card_def Let_def split: option.splits)
qed

lemma parse_cards_total: "\<exists>cs. parse_cards ss = Inr cs"
proof (induction ss)
  case Nil
  show ?case by simp
next
  case (Cons s ss)
  with Card_total [of s] show ?case by auto
qed













end
